theory Spec2Isabelle
  imports Complex_Main "HOL-Library.Log_Nat"
begin

section \<open>Data model\<close>

text \<open>
  The dashboard of \<^verbatim>\<open>src/src/App.jsx\<close> keeps three arrays: \<^verbatim>\<open>days\<close> (the axis built once by
  \<^verbatim>\<open>getDaysFromStartOfYear\<close>), \<^verbatim>\<open>habits\<close> and \<^verbatim>\<open>entries\<close> (rows of the tables
  \<^verbatim>\<open>habits\<close> and \<^verbatim>\<open>habit_entries\<close>). Ids and dates are JavaScript strings, compared with
  \<^verbatim>\<open>===\<close>; the column \<^verbatim>\<open>value\<close> is a boolean. The two locale-dependent display strings of
  a day (\<^verbatim>\<open>label\<close>, \<^verbatim>\<open>monthShort\<close>) are produced by \<^verbatim>\<open>toLocaleDateString\<close> and take no part
  in any computation; they are left out of the record.
\<close>

record day =
  d_date :: string
  d_weekdayRow :: nat
  d_weekdayLabel :: string
  d_dayOfMonth :: nat
  d_monthIndex :: nat

record habit =
  h_id :: string
  h_user_id :: string
  h_name :: string
  h_created_at :: string

record entry =
  e_user_id :: string
  e_habit_id :: string
  e_date :: string
  e_value :: bool

section \<open>Reading the entry store\<close>

text \<open>\<^verbatim>\<open>entries.find(e => e.habit_id === habitId && e.date === date)\<close>: the first matching row,
  \<^verbatim>\<open>undefined\<close> (here \<open>None\<close>) when there is none.\<close>

definition getEntry :: "entry list \<Rightarrow> string \<Rightarrow> string \<Rightarrow> entry option" where
  "getEntry entries habitId date =
     find (\<lambda>e. e_habit_id e = habitId \<and> e_date e = date) entries"

definition getHabitDayRatio :: "entry list \<Rightarrow> habit \<Rightarrow> string \<Rightarrow> nat" where
  "getHabitDayRatio entries habit date =
     (case getEntry entries (h_id habit) date of
        None \<Rightarrow> 0
      | Some entry \<Rightarrow> (if e_value entry then 1 else 0))"

section \<open>Streaks\<close>

text \<open>
  \<^verbatim>\<open>getHabitStreak\<close>: \<^verbatim>\<open>for (let i = days.length - 1; i >= 0; i--)\<close>. The loop counter is
  carried as \<open>k = i + 1\<close>, so that \<open>i >= 0\<close> is \<open>k = Suc i\<close> and the exit \<open>i = -1\<close> is \<open>k = 0\<close>;
  \<^verbatim>\<open>break\<close> returns the count reached.
\<close>

fun streak_loop :: "entry list \<Rightarrow> day list \<Rightarrow> habit \<Rightarrow> nat \<Rightarrow> nat \<Rightarrow> nat" where
  "streak_loop entries days habit 0 count = count"
| "streak_loop entries days habit (Suc i) count =
     (let ratio = getHabitDayRatio entries habit (d_date (days ! i))
      in if ratio > 0 then streak_loop entries days habit i (count + 1)
         else count)"

definition getHabitStreak :: "entry list \<Rightarrow> day list \<Rightarrow> habit \<Rightarrow> nat" where
  "getHabitStreak entries days habit = streak_loop entries days habit (length days) 0"

text \<open>\<^verbatim>\<open>getHabitLongestStreak\<close>: \<^verbatim>\<open>for (const day of days)\<close> with the two variables
  \<^verbatim>\<open>max\<close> and \<^verbatim>\<open>current\<close>.\<close>

fun longest_loop :: "entry list \<Rightarrow> habit \<Rightarrow> day list \<Rightarrow> nat \<Rightarrow> nat \<Rightarrow> nat" where
  "longest_loop entries habit [] mx current = mx"
| "longest_loop entries habit (day # rest) mx current =
     (let ratio = getHabitDayRatio entries habit (d_date day)
      in if ratio > 0
         then (let current' = current + 1
               in longest_loop entries habit rest (if current' > mx then current' else mx) current')
         else longest_loop entries habit rest mx 0)"

definition getHabitLongestStreak :: "entry list \<Rightarrow> day list \<Rightarrow> habit \<Rightarrow> nat" where
  "getHabitLongestStreak entries days habit = longest_loop entries habit days 0 0"

text \<open>A day is a done-day of a habit when the store has an entry for it and the first such
  entry holds \<open>true\<close>; a missing entry and an entry holding \<open>false\<close> are both not done.\<close>

definition doneOn :: "entry list \<Rightarrow> habit \<Rightarrow> day \<Rightarrow> bool" where
  "doneOn entries habit dy =
     (case getEntry entries (h_id habit) (d_date dy) of
        None \<Rightarrow> False
      | Some e \<Rightarrow> e_value e)"

section \<open>Aggregates\<close>

text \<open>
  JavaScript numbers are IEEE 754 binary64 values, and \<^verbatim>\<open>/\<close> and \<^verbatim>\<open>*\<close> return the exact
  result rounded to the nearest such value, ties to the even significand. A finite number
  is modelled by the rational it denotes, and the rounding by \<open>fl64\<close>: for \<open>x\<close> in the
  binade \<open>2\<^sup>e \<le> |x| < 2\<^sup>e\<^sup>+\<^sup>1\<close> the representable values are the multiples of
  \<open>2\<^sup>e\<^sup>-\<^sup>5\<^sup>2\<close>. Overflow and subnormal results do not arise for the quotients and
  products of array lengths below and are not modelled.
\<close>

definition round_half_even :: "rat \<Rightarrow> int" where
  "round_half_even y =
     (let f = \<lfloor>y\<rfloor>; r = y - of_int f
      in if r < 1 / 2 then f
         else if 1 / 2 < r then f + 1
         else if even f then f else f + 1)"

definition binade :: "rat \<Rightarrow> int" where
  "binade x =
     (let (a, b) = quotient_of x; k = bitlen a - bitlen b
      in if power_int 2 k \<le> x then k else k - 1)"

definition fl64 :: "rat \<Rightarrow> rat" where
  "fl64 x =
     (if x = 0 then 0
      else (let ulp = power_int 2 (binade \<bar>x\<bar> - 52)
            in sgn x * of_int (round_half_even (\<bar>x\<bar> / ulp)) * ulp))"

text \<open>
  \<^verbatim>\<open>Math.round\<close> returns the integer nearest to its argument, the larger one at a tie; it is
  exact.
\<close>

definition Math_round :: "rat \<Rightarrow> int" where
  "Math_round x = \<lfloor>x + 1 / 2\<rfloor>"

definition overallCompletionRate :: "day list \<Rightarrow> habit list \<Rightarrow> entry list \<Rightarrow> int" where
  "overallCompletionRate days habits entries =
     (let totalHabits = length habits;
          totalPossibleCompletions = length days * max totalHabits 1;
          totalCompletions = length (filter (\<lambda>e. e_value e) entries)
      in if totalPossibleCompletions > 0
         then Math_round
                (fl64 (fl64 (of_nat totalCompletions / of_nat totalPossibleCompletions) * 100))
         else 0)"

text \<open>
  \<^verbatim>\<open>Array.prototype.sort(comparefn)\<close> is a stable sort: elements that compare equal keep
  their order, and for a consistent comparator the result is the one ordering that is sorted
  and stable. It is modelled by a stable insertion sort driven by the comparator, an element
  going before the first later element it does not compare greater than.
\<close>

fun insert_cmp :: "('a \<Rightarrow> 'a \<Rightarrow> int) \<Rightarrow> 'a \<Rightarrow> 'a list \<Rightarrow> 'a list" where
  "insert_cmp cmp x [] = [x]"
| "insert_cmp cmp x (y # ys) =
     (if cmp x y \<le> 0 then x # y # ys else y # insert_cmp cmp x ys)"

definition js_sort :: "('a \<Rightarrow> 'a \<Rightarrow> int) \<Rightarrow> 'a list \<Rightarrow> 'a list" where
  "js_sort cmp xs = foldr (insert_cmp cmp) xs []"

text \<open>The objects \<^verbatim>\<open>{ habit: h, streak: getHabitLongestStreak(h) }\<close> that \<^verbatim>\<open>bestHabit\<close>
  sorts.\<close>

record ranked =
  r_habit :: habit
  r_streak :: nat

text \<open>\<^verbatim>\<open>bestHabit\<close>: \<^verbatim>\<open>null\<close> is \<open>None\<close>; \<^verbatim>\<open>[0]\<close> of the sorted array is its first
  element.\<close>

definition bestHabit :: "entry list \<Rightarrow> day list \<Rightarrow> habit list \<Rightarrow> ranked option" where
  "bestHabit entries days habits =
     (if length habits > 0
      then (case js_sort (\<lambda>a b. int (r_streak b) - int (r_streak a))
                   (map (\<lambda>h. \<lparr>r_habit = h, r_streak = getHabitLongestStreak entries days h\<rparr>)
                        habits) of
              [] \<Rightarrow> None
            | first # _ \<Rightarrow> Some first)
      else None)"

section \<open>Writing the entry store\<close>

text \<open>\<^verbatim>\<open>findIndex\<close> returns the first index whose element satisfies the predicate, and
  \<^verbatim>\<open>-1\<close> (here \<open>None\<close>) when there is none.\<close>

fun findIndex :: "('a \<Rightarrow> bool) \<Rightarrow> 'a list \<Rightarrow> nat option" where
  "findIndex P [] = None"
| "findIndex P (x # xs) = (if P x then Some 0 else map_option Suc (findIndex P xs))"

text \<open>\<^verbatim>\<open>{ ...copy[idx], ...data }\<close>: every column that \<^verbatim>\<open>data\<close> carries replaces the old
  one. Both objects are rows of \<^verbatim>\<open>habit_entries\<close> selected with all their columns.\<close>

definition spread :: "entry \<Rightarrow> entry \<Rightarrow> entry" where
  "spread old data =
     old\<lparr>e_user_id := e_user_id data, e_habit_id := e_habit_id data,
         e_date := e_date data, e_value := e_value data\<rparr>"

text \<open>The updater that \<^verbatim>\<open>updateEntry\<close> passes to \<^verbatim>\<open>setEntries\<close>.\<close>

definition setEntries_updater :: "string \<Rightarrow> string \<Rightarrow> entry \<Rightarrow> entry list \<Rightarrow> entry list" where
  "setEntries_updater habitId date data prev =
     (case findIndex (\<lambda>e. e_habit_id e = habitId \<and> e_date e = date) prev of
        Some idx \<Rightarrow> prev[idx := spread (prev ! idx) data]
      | None \<Rightarrow> prev @ [data])"

text \<open>The natural key of an entry within one user's store: habit and date.\<close>

definition entry_key :: "entry \<Rightarrow> string \<times> string" where
  "entry_key e = (e_habit_id e, e_date e)"

section \<open>The dashboard and its event handlers\<close>

text \<open>
  The state of the \<^verbatim>\<open>Dashboard\<close> component. \<open>user\<close> is the id of the \<^verbatim>\<open>user\<close> prop
  (\<open>None\<close> when the prop is null). \<open>sent\<close> records, in order, the rows handed to
  \<^verbatim>\<open>supabase.from("habit_entries").upsert\<close>, and \<open>console\<close> the messages written with
  \<^verbatim>\<open>console.error\<close>; both are observations of the component's effects.
\<close>

record dashboard =
  user :: "string option"
  days :: "day list"
  selectedDate :: string
  habits :: "habit list"
  entries :: "entry list"
  isDragging :: bool
  dragValue :: "bool option"
  sent :: "entry list"
  console :: "string list"

text \<open>The \<^verbatim>\<open>error\<close> object of a rejected remote call.\<close>

datatype remote_error = RemoteError string

text \<open>
  \<^verbatim>\<open>updateEntry\<close> is an async function. Its body up to the \<^verbatim>\<open>await\<close> runs inside the
  calling handler: it returns at once without a user, and otherwise starts the remote upsert.
\<close>

definition updateEntry_call :: "string \<Rightarrow> string \<Rightarrow> bool \<Rightarrow> dashboard \<Rightarrow> dashboard" where
  "updateEntry_call habitId date val s =
     (case user s of
        None \<Rightarrow> s
      | Some uid \<Rightarrow>
          s\<lparr>sent := sent s @
               [\<lparr>e_user_id = uid, e_habit_id = habitId, e_date = date, e_value = val\<rparr>]\<rparr>)"

text \<open>
  The rest of the body runs when the remote call has resolved, with \<^verbatim>\<open>{ data, error }\<close>
  given as \<open>Inr data\<close> or \<open>Inl error\<close>, on the state the component has by then (the
  updater is a function of \<^verbatim>\<open>prev\<close>).
\<close>

definition updateEntry_resolved ::
    "string \<Rightarrow> string \<Rightarrow> remote_error + entry \<Rightarrow> dashboard \<Rightarrow> dashboard" where
  "updateEntry_resolved habitId date result s =
     (case result of
        Inl error \<Rightarrow> s\<lparr>console := console s @ [''Error updating entry:'']\<rparr>
      | Inr data \<Rightarrow> s\<lparr>entries := setEntries_updater habitId date data (entries s)\<rparr>)"

text \<open>\<^verbatim>\<open>handleDeleteHabit\<close>, with the outcome of the remote delete as an argument
  (\<open>None\<close>: no error). Nothing is written before the \<^verbatim>\<open>await\<close>.\<close>

definition handleDeleteHabit :: "string \<Rightarrow> remote_error option \<Rightarrow> dashboard \<Rightarrow> dashboard" where
  "handleDeleteHabit hid result s =
     (case user s of
        None \<Rightarrow> s
      | Some uid \<Rightarrow>
          (case result of
             Some error \<Rightarrow> s\<lparr>console := console s @ [''Error deleting habit:'']\<rparr>
           | None \<Rightarrow>
               s\<lparr>habits := filter (\<lambda>h. h_id h \<noteq> hid) (habits s),
                 entries := filter (\<lambda>e. e_habit_id e \<noteq> hid) (entries s)\<rparr>))"

text \<open>The handlers of a day cell of the heat map, for the habit of its row and its day.\<close>

definition onMouseDown :: "habit \<Rightarrow> day \<Rightarrow> dashboard \<Rightarrow> dashboard" where
  "onMouseDown habit dy s =
     (let current = getEntry (entries s) (h_id habit) (d_date dy);
          currentVal = (case current of None \<Rightarrow> False | Some c \<Rightarrow> e_value c);
          nextVal = (\<not> currentVal)
      in updateEntry_call (h_id habit) (d_date dy) nextVal
           (s\<lparr>selectedDate := d_date dy, isDragging := True, dragValue := Some nextVal\<rparr>))"

definition onMouseEnter :: "habit \<Rightarrow> day \<Rightarrow> dashboard \<Rightarrow> dashboard" where
  "onMouseEnter habit dy s =
     (if \<not> isDragging s \<or> dragValue s = None then s
      else (case dragValue s of
              None \<Rightarrow> s
            | Some v \<Rightarrow> updateEntry_call (h_id habit) (d_date dy) v s))"

definition handleMouseUp :: "dashboard \<Rightarrow> dashboard" where
  "handleMouseUp s = s\<lparr>isDragging := False, dragValue := None\<rparr>"

text \<open>The value a day cell shows: \<^verbatim>\<open>ratio > 0 ? "Done" : "Not done"\<close>.\<close>

definition cellDone :: "dashboard \<Rightarrow> habit \<Rightarrow> day \<Rightarrow> bool" where
  "cellDone s habit dy = (getHabitDayRatio (entries s) habit (d_date dy) > 0)"

section \<open>The day axis\<close>

text \<open>
  A JavaScript \<^verbatim>\<open>Date\<close> holds a time value: the milliseconds since 1970-01-01T00:00:00Z.
  Its local fields (\<^verbatim>\<open>getFullYear\<close>, \<^verbatim>\<open>getMonth\<close>, \<^verbatim>\<open>getDate\<close>, \<^verbatim>\<open>getDay\<close>,
  \<^verbatim>\<open>new Date(y, m, d)\<close>, \<^verbatim>\<open>setDate\<close>) read and write the time value shifted by the
  offset of the host's time zone, while \<^verbatim>\<open>toISOString\<close> prints the fields of the time value
  itself, in UTC. The function \<^verbatim>\<open>getDaysFromStartOfYear\<close> reads the clock and the host's zone; both
  are arguments here: \<open>now\<close>, the time value of \<^verbatim>\<open>new Date()\<close>, and \<open>tz\<close>, the minutes the
  zone is ahead of UTC, taken constant over the year.
\<close>

definition msPerDay :: int where
  "msPerDay = 86400000"

definition localTZA :: "int \<Rightarrow> int" where
  "localTZA tz = tz * 60000"

text \<open>Day number (days since 1970-01-01) of a date of the proleptic Gregorian calendar, the
  month counted from 1, and the date of a day number.\<close>

definition days_from_civil :: "int \<Rightarrow> int \<Rightarrow> int \<Rightarrow> int" where
  "days_from_civil y m d =
     (let y' = (if m \<le> 2 then y - 1 else y);
          era = y' div 400;
          yoe = y' - era * 400;
          doy = (153 * (if m > 2 then m - 3 else m + 9) + 2) div 5 + d - 1;
          doe = yoe * 365 + yoe div 4 - yoe div 100 + doy
      in era * 146097 + doe - 719468)"

definition civil_from_days :: "int \<Rightarrow> int \<times> int \<times> int" where
  "civil_from_days z =
     (let z' = z + 719468;
          era = z' div 146097;
          doe = z' - era * 146097;
          yoe = (doe - doe div 1460 + doe div 36524 - doe div 146096) div 365;
          doy = doe - (365 * yoe + yoe div 4 - yoe div 100);
          mp = (5 * doy + 2) div 153;
          d = doy - (153 * mp + 2) div 5 + 1;
          m = (if mp < 10 then mp + 3 else mp - 9);
          y = yoe + era * 400
      in (if m \<le> 2 then y + 1 else y, m, d))"

text \<open>The local fields of a time value in a zone \<open>tz\<close> minutes ahead of UTC.\<close>

definition getFullYear :: "int \<Rightarrow> int \<Rightarrow> int" where
  "getFullYear tz t = fst (civil_from_days ((t + localTZA tz) div msPerDay))"

definition getMonth :: "int \<Rightarrow> int \<Rightarrow> int" where
  "getMonth tz t = fst (snd (civil_from_days ((t + localTZA tz) div msPerDay))) - 1"

definition getDate :: "int \<Rightarrow> int \<Rightarrow> int" where
  "getDate tz t = snd (snd (civil_from_days ((t + localTZA tz) div msPerDay)))"

text \<open>\<^verbatim>\<open>getDay\<close>: 0 is Sunday; 1970-01-01 was a Thursday.\<close>

definition getDay :: "int \<Rightarrow> int \<Rightarrow> int" where
  "getDay tz t = ((t + localTZA tz) div msPerDay + 4) mod 7"

text \<open>\<^verbatim>\<open>new Date(year, monthIndex, date)\<close>: local midnight of that date.\<close>

definition newDate_local :: "int \<Rightarrow> int \<Rightarrow> int \<Rightarrow> int \<Rightarrow> int" where
  "newDate_local tz year monthIndex date =
     days_from_civil year (monthIndex + 1) date * msPerDay - localTZA tz"

text \<open>\<^verbatim>\<open>d.setDate(d.getDate() + 1)\<close> moves to the same local time on the next calendar day:
  with a constant offset, one day's milliseconds later.\<close>

definition setDate_next :: "int \<Rightarrow> int" where
  "setDate_next t = t + msPerDay"

text \<open>Decimal digits, padded with zeros to a fixed width.\<close>

definition digit :: "int \<Rightarrow> char" where
  "digit n = char_of (48 + n mod 10)"

definition pad2 :: "int \<Rightarrow> string" where
  "pad2 n = [digit (n div 10), digit n]"

definition pad3 :: "int \<Rightarrow> string" where
  "pad3 n = [digit (n div 100), digit (n div 10), digit n]"

definition pad4 :: "int \<Rightarrow> string" where
  "pad4 n = [digit (n div 1000), digit (n div 100), digit (n div 10), digit n]"

definition pad6 :: "int \<Rightarrow> string" where
  "pad6 n = [digit (n div 100000), digit (n div 10000), digit (n div 1000),
             digit (n div 100), digit (n div 10), digit n]"

text \<open>\<^verbatim>\<open>toISOString\<close>: \<^verbatim>\<open>YYYY-MM-DDTHH:mm:ss.sssZ\<close> in UTC, the year with a sign and six
  digits outside 0..9999.\<close>

definition toISOString :: "int \<Rightarrow> string" where
  "toISOString t =
     (let (y, m, d) = civil_from_days (t div msPerDay);
          ms = t mod msPerDay;
          year = (if 0 \<le> y \<and> y \<le> 9999 then pad4 y
                  else (if y < 0 then ''-'' else ''+'') @ pad6 \<bar>y\<bar>)
      in year @ ''-'' @ pad2 m @ ''-'' @ pad2 d @ ''T'' @
         pad2 (ms div 3600000) @ '':'' @ pad2 (ms div 60000 mod 60) @ '':'' @
         pad2 (ms div 1000 mod 60) @ ''.'' @ pad3 (ms mod 1000) @ ''Z'')"

text \<open>\<^verbatim>\<open>formatDate\<close>: \<^verbatim>\<open>date.toISOString().slice(0, 10)\<close>.\<close>

definition formatDate :: "int \<Rightarrow> string" where
  "formatDate t = take 10 (toISOString t)"

definition weekdayLabels :: "string list" where
  "weekdayLabels = [''Mon'', ''Tue'', ''Wed'', ''Thu'', ''Fri'', ''Sat'', ''Sun'']"

text \<open>The object pushed for one iteration of the loop, from the copy of \<^verbatim>\<open>d\<close>.\<close>

definition makeDay :: "int \<Rightarrow> int \<Rightarrow> day" where
  "makeDay tz copy =
     (let jsDay = getDay tz copy;
          weekdayRow = nat ((jsDay + 6) mod 7)
      in \<lparr>d_date = formatDate copy,
          d_weekdayRow = weekdayRow,
          d_weekdayLabel = weekdayLabels ! weekdayRow,
          d_dayOfMonth = nat (getDate tz copy),
          d_monthIndex = nat (getMonth tz copy)\<rparr>)"

text \<open>\<^verbatim>\<open>for (let d = new Date(start); d <= today; d.setDate(d.getDate() + 1))\<close>.\<close>

function days_loop :: "int \<Rightarrow> int \<Rightarrow> int \<Rightarrow> day list \<Rightarrow> day list" where
  "days_loop tz today d acc =
     (if d \<le> today then days_loop tz today (setDate_next d) (acc @ [makeDay tz d])
      else acc)"
  by pat_completeness auto
termination
  by (relation "measure (\<lambda>(tz, today, d, acc). nat (today - d + 1))")
     (auto simp: setDate_next_def msPerDay_def)

definition getDaysFromStartOfYear :: "int \<Rightarrow> int \<Rightarrow> day list" where
  "getDaysFromStartOfYear now tz =
     (let today = now;
          start = newDate_local tz (getFullYear tz today) 0 1
      in days_loop tz today start [])"

section \<open>Sample data\<close>

text \<open>
  The axis that \<open>getDaysFromStartOfYear\<close> yields at noon of 14 January 2025 in a host on
  UTC, one habit, and a store in which the habit is done on 1--3, 6--10 and 13--14 January,
  holds an entry with \<open>false\<close> on 4 January, and has no entry on the other days.
\<close>

definition exAxis :: "day list" where
  "exAxis =
     [\<lparr>d_date = ''2025-01-01'', d_weekdayRow = 2, d_weekdayLabel = ''Wed'',
        d_dayOfMonth = 1, d_monthIndex = 0\<rparr>,
      \<lparr>d_date = ''2025-01-02'', d_weekdayRow = 3, d_weekdayLabel = ''Thu'',
        d_dayOfMonth = 2, d_monthIndex = 0\<rparr>,
      \<lparr>d_date = ''2025-01-03'', d_weekdayRow = 4, d_weekdayLabel = ''Fri'',
        d_dayOfMonth = 3, d_monthIndex = 0\<rparr>,
      \<lparr>d_date = ''2025-01-04'', d_weekdayRow = 5, d_weekdayLabel = ''Sat'',
        d_dayOfMonth = 4, d_monthIndex = 0\<rparr>,
      \<lparr>d_date = ''2025-01-05'', d_weekdayRow = 6, d_weekdayLabel = ''Sun'',
        d_dayOfMonth = 5, d_monthIndex = 0\<rparr>,
      \<lparr>d_date = ''2025-01-06'', d_weekdayRow = 0, d_weekdayLabel = ''Mon'',
        d_dayOfMonth = 6, d_monthIndex = 0\<rparr>,
      \<lparr>d_date = ''2025-01-07'', d_weekdayRow = 1, d_weekdayLabel = ''Tue'',
        d_dayOfMonth = 7, d_monthIndex = 0\<rparr>,
      \<lparr>d_date = ''2025-01-08'', d_weekdayRow = 2, d_weekdayLabel = ''Wed'',
        d_dayOfMonth = 8, d_monthIndex = 0\<rparr>,
      \<lparr>d_date = ''2025-01-09'', d_weekdayRow = 3, d_weekdayLabel = ''Thu'',
        d_dayOfMonth = 9, d_monthIndex = 0\<rparr>,
      \<lparr>d_date = ''2025-01-10'', d_weekdayRow = 4, d_weekdayLabel = ''Fri'',
        d_dayOfMonth = 10, d_monthIndex = 0\<rparr>,
      \<lparr>d_date = ''2025-01-11'', d_weekdayRow = 5, d_weekdayLabel = ''Sat'',
        d_dayOfMonth = 11, d_monthIndex = 0\<rparr>,
      \<lparr>d_date = ''2025-01-12'', d_weekdayRow = 6, d_weekdayLabel = ''Sun'',
        d_dayOfMonth = 12, d_monthIndex = 0\<rparr>,
      \<lparr>d_date = ''2025-01-13'', d_weekdayRow = 0, d_weekdayLabel = ''Mon'',
        d_dayOfMonth = 13, d_monthIndex = 0\<rparr>,
      \<lparr>d_date = ''2025-01-14'', d_weekdayRow = 1, d_weekdayLabel = ''Tue'',
        d_dayOfMonth = 14, d_monthIndex = 0\<rparr>]"

definition exHabit :: habit where
  "exHabit = \<lparr>h_id = ''h1'', h_user_id = ''u1'', h_name = ''Read'',
              h_created_at = ''2025-01-01T08:00:00Z''\<rparr>"

definition exHabit2 :: habit where
  "exHabit2 = \<lparr>h_id = ''h2'', h_user_id = ''u1'', h_name = ''Walk'',
               h_created_at = ''2025-01-02T08:00:00Z''\<rparr>"

definition exRow :: "string \<Rightarrow> bool \<Rightarrow> entry" where
  "exRow date v = \<lparr>e_user_id = ''u1'', e_habit_id = ''h1'', e_date = date, e_value = v\<rparr>"

definition exEntries :: "entry list" where
  "exEntries =
     [exRow ''2025-01-01'' True,
      exRow ''2025-01-02'' True,
      exRow ''2025-01-03'' True,
      exRow ''2025-01-04'' False,
      exRow ''2025-01-06'' True,
      exRow ''2025-01-07'' True,
      exRow ''2025-01-08'' True,
      exRow ''2025-01-09'' True,
      exRow ''2025-01-10'' True,
      exRow ''2025-01-13'' True,
      exRow ''2025-01-14'' True]"

text \<open>A dashboard of user \<open>u1\<close> right after both fetches, nothing dragged.\<close>

definition exDashboard :: dashboard where
  "exDashboard =
     \<lparr>user = Some ''u1'', days = exAxis, selectedDate = ''2025-01-14'',
      habits = [exHabit, exHabit2], entries = exEntries,
      isDragging = False, dragValue = None, sent = [], console = []\<rparr>"

definition exHabit3 :: habit where
  "exHabit3 = \<lparr>h_id = ''h3'', h_user_id = ''u1'', h_name = ''Stretch'',
               h_created_at = ''2025-01-03T08:00:00Z''\<rparr>"

text \<open>The same dashboard with one more row in the store, of the second habit.\<close>

definition exRow2 :: entry where
  "exRow2 = \<lparr>e_user_id = ''u1'', e_habit_id = ''h2'', e_date = ''2025-01-02'', e_value = True\<rparr>"

definition exDashboard2 :: dashboard where
  "exDashboard2 = exDashboard\<lparr>entries := exRow2 # exEntries\<rparr>"

section \<open>Facts about the streak loops\<close>

lemma ratio_pos_iff_doneOn:
  "(0 < getHabitDayRatio es habit (d_date dy)) = doneOn es habit dy"
  by (simp add: getHabitDayRatio_def doneOn_def split: option.splits)

lemma streak_loop_takeWhile:
  "k \<le> length axis \<Longrightarrow>
   streak_loop es axis habit k c =
     c + length (takeWhile (doneOn es habit) (rev (take k axis)))"
proof (induction k arbitrary: c)
  case 0
  then show ?case by simp
next
  case (Suc k)
  then have lt: "k < length axis" by simp
  have tk: "take (Suc k) axis = take k axis @ [axis ! k]"
    using lt by (simp add: take_Suc_conv_app_nth)
  show ?case
  proof (cases "doneOn es habit (axis ! k)")
    case True
    then show ?thesis
      using Suc.IH [of "c + 1"] lt by (simp add: tk ratio_pos_iff_doneOn)
  next
    case False
    then show ?thesis
      by (simp add: tk ratio_pos_iff_doneOn)
  qed
qed

lemma getHabitStreak_takeWhile:
  "getHabitStreak es axis habit =
     length (takeWhile (doneOn es habit) (rev axis))"
  by (simp add: getHabitStreak_def streak_loop_takeWhile)

lemma longest_loop_ge_mx: "mx \<le> longest_loop es habit ds mx cur"
proof (induction ds arbitrary: mx cur)
  case Nil
  then show ?case by simp
next
  case (Cons d ds)
  show ?case
  proof (cases "doneOn es habit d")
    case True
    have "mx \<le> (if cur + 1 > mx then cur + 1 else mx)" by simp
    also have "\<dots> \<le> longest_loop es habit ds (if cur + 1 > mx then cur + 1 else mx) (cur + 1)"
      by (rule Cons.IH)
    finally show ?thesis using True by (simp add: ratio_pos_iff_doneOn Let_def split: if_splits)
  next
    case False
    then show ?thesis using Cons.IH [of mx 0] by (simp add: ratio_pos_iff_doneOn)
  qed
qed

lemma longest_loop_prefix:
  "cur \<le> mx \<Longrightarrow> n \<le> length ds \<Longrightarrow> \<forall>j<n. doneOn es habit (ds ! j) \<Longrightarrow>
   cur + n \<le> longest_loop es habit ds mx cur"
proof (induction ds arbitrary: mx cur n)
  case Nil
  then show ?case by simp
next
  case (Cons d ds)
  show ?case
  proof (cases n)
    case 0
    have "cur \<le> mx" by (rule Cons.prems(1))
    also have "mx \<le> longest_loop es habit (d # ds) mx cur" by (rule longest_loop_ge_mx)
    finally show ?thesis using 0 by simp
  next
    case (Suc m)
    have d: "doneOn es habit d" using Cons.prems(3) Suc by auto
    have rest: "\<forall>j<m. doneOn es habit (ds ! j)"
      using Cons.prems(3) Suc by auto
    have "cur + 1 + m \<le> longest_loop es habit ds (if cur + 1 > mx then cur + 1 else mx) (cur + 1)"
      using Cons.prems(2) Suc rest by (intro Cons.IH) auto
    then show ?thesis using d Suc by (simp add: ratio_pos_iff_doneOn Let_def split: if_splits)
  qed
qed

lemma longest_loop_run:
  "cur \<le> mx \<Longrightarrow> i + n \<le> length ds \<Longrightarrow> \<forall>j<n. doneOn es habit (ds ! (i + j)) \<Longrightarrow>
   n \<le> longest_loop es habit ds mx cur"
proof (induction ds arbitrary: mx cur i)
  case Nil
  then show ?case by simp
next
  case (Cons d ds)
  show ?case
  proof (cases i)
    case 0
    have "cur + n \<le> longest_loop es habit (d # ds) mx cur"
      using Cons.prems 0 by (intro longest_loop_prefix) auto
    then show ?thesis by simp
  next
    case (Suc i')
    have len: "i' + n \<le> length ds" using Cons.prems(2) Suc by simp
    have run: "\<forall>j<n. doneOn es habit (ds ! (i' + j))"
      using Cons.prems(3) Suc by simp
    show ?thesis
    proof (cases "doneOn es habit d")
      case True
      have "n \<le> longest_loop es habit ds (if cur + 1 > mx then cur + 1 else mx) (cur + 1)"
        using len run Cons.prems(1) by (intro Cons.IH) auto
      then show ?thesis using True by (simp add: ratio_pos_iff_doneOn Let_def split: if_splits)
    next
      case False
      have "n \<le> longest_loop es habit ds mx 0"
        using len run by (intro Cons.IH) auto
      then show ?thesis using False by (simp add: ratio_pos_iff_doneOn)
    qed
  qed
qed

lemma longest_loop_attained:
  "cur \<le> mx \<Longrightarrow>
   longest_loop es habit ds mx cur = mx \<or>
   (\<exists>i. i + longest_loop es habit ds mx cur \<le> length ds \<and>
        (\<forall>j<longest_loop es habit ds mx cur. doneOn es habit (ds ! (i + j)))) \<or>
   (\<exists>n\<le>length ds. longest_loop es habit ds mx cur = cur + n \<and>
        (\<forall>j<n. doneOn es habit (ds ! j)))"
proof (induction ds arbitrary: mx cur)
  case Nil
  then show ?case by simp
next
  case (Cons d ds)
  show ?case
  proof (cases "doneOn es habit d")
    case True
    define mx' where "mx' = (if cur + 1 > mx then cur + 1 else mx)"
    define r where "r = longest_loop es habit ds mx' (cur + 1)"
    have r: "longest_loop es habit (d # ds) mx cur = r"
      using True by (simp add: r_def mx'_def ratio_pos_iff_doneOn Let_def)
    have le: "cur + 1 \<le> mx'" by (simp add: mx'_def)
    from Cons.IH [OF le] consider
      (a) "r = mx'"
      | (b) i where "i + r \<le> length ds" "\<forall>j<r. doneOn es habit (ds ! (i + j))"
      | (c) n where "n \<le> length ds" "r = cur + 1 + n" "\<forall>j<n. doneOn es habit (ds ! j)"
      unfolding r_def by blast
    then show ?thesis
    proof cases
      case a
      show ?thesis
      proof (cases "cur + 1 > mx")
        case True
        then have "r = cur + 1" using a by (simp add: mx'_def)
        moreover have "\<forall>j<1. doneOn es habit ((d # ds) ! j)"
          using \<open>doneOn es habit d\<close> by simp
        ultimately have "\<exists>n\<le>length (d # ds). r = cur + n \<and>
            (\<forall>j<n. doneOn es habit ((d # ds) ! j))"
          by (intro exI [of _ 1]) simp
        then show ?thesis unfolding r by blast
      next
        case False
        then have "r = mx" using a by (simp add: mx'_def)
        then show ?thesis unfolding r by blast
      qed
    next
      case b
      have "Suc i + r \<le> length (d # ds)" using b(1) by simp
      moreover have "\<forall>j<r. doneOn es habit ((d # ds) ! (Suc i + j))"
        using b(2) by simp
      ultimately show ?thesis unfolding r by blast
    next
      case c
      have "Suc n \<le> length (d # ds)" using c(1) by simp
      moreover have "r = cur + Suc n" using c(2) by simp
      moreover have "\<forall>j<Suc n. doneOn es habit ((d # ds) ! j)"
      proof (intro allI impI)
        fix j assume "j < Suc n"
        then show "doneOn es habit ((d # ds) ! j)"
          using c(3) True by (cases j) auto
      qed
      ultimately show ?thesis unfolding r by blast
    qed
  next
    case False
    define r where "r = longest_loop es habit ds mx 0"
    have r: "longest_loop es habit (d # ds) mx cur = r"
      using False by (simp add: r_def ratio_pos_iff_doneOn)
    have le: "(0::nat) \<le> mx" by simp
    from Cons.IH [OF le] consider
      (a) "r = mx"
      | (b) i where "i + r \<le> length ds" "\<forall>j<r. doneOn es habit (ds ! (i + j))"
      | (c) n where "n \<le> length ds" "r = n" "\<forall>j<n. doneOn es habit (ds ! j)"
      unfolding r_def by auto
    then show ?thesis
    proof cases
      case a
      then show ?thesis unfolding r by blast
    next
      case b
      have "Suc i + r \<le> length (d # ds)" using b(1) by simp
      moreover have "\<forall>j<r. doneOn es habit ((d # ds) ! (Suc i + j))"
        using b(2) by simp
      ultimately show ?thesis unfolding r by blast
    next
      case c
      have "Suc 0 + r \<le> length (d # ds)" using c(1,2) by simp
      moreover have "\<forall>j<r. doneOn es habit ((d # ds) ! (Suc 0 + j))"
        using c(2,3) by simp
      ultimately show ?thesis unfolding r by blast
    qed
  qed
qed

lemma longest_run_exists:
  "\<exists>i. i + getHabitLongestStreak es axis habit \<le> length axis \<and>
       (\<forall>j<getHabitLongestStreak es axis habit. doneOn es habit (axis ! (i + j)))"
proof -
  define r where "r = getHabitLongestStreak es axis habit"
  have "r = 0 \<or>
        (\<exists>i. i + r \<le> length axis \<and> (\<forall>j<r. doneOn es habit (axis ! (i + j)))) \<or>
        (\<exists>n\<le>length axis. r = 0 + n \<and> (\<forall>j<n. doneOn es habit (axis ! j)))"
    unfolding r_def getHabitLongestStreak_def
    by (rule longest_loop_attained) simp
  then consider (z) "r = 0"
    | (b) i where "i + r \<le> length axis" "\<forall>j<r. doneOn es habit (axis ! (i + j))"
    | (c) "r \<le> length axis" "\<forall>j<r. doneOn es habit (axis ! j)"
    by auto
  then have "\<exists>i. i + r \<le> length axis \<and> (\<forall>j<r. doneOn es habit (axis ! (i + j)))"
  proof cases
    case z
    then show ?thesis by (intro exI [of _ 0]) simp
  next
    case b
    then show ?thesis by blast
  next
    case c
    then show ?thesis by (intro exI [of _ 0]) simp
  qed
  then show ?thesis by (simp add: r_def)
qed

lemma longest_run_bound:
  "i + n \<le> length axis \<Longrightarrow> \<forall>j<n. doneOn es habit (axis ! (i + j)) \<Longrightarrow>
   n \<le> getHabitLongestStreak es axis habit"
  unfolding getHabitLongestStreak_def
  by (rule longest_loop_run [where i = i]) simp_all

lemma longest_le_length:
  "getHabitLongestStreak es axis habit \<le> length axis"
  using longest_run_exists [of es axis habit] by auto

lemma streak_tail_done:
  assumes "j < getHabitStreak es axis habit"
  shows "doneOn es habit (axis ! (length axis - 1 - j))"
proof -
  let ?P = "doneOn es habit"
  let ?k = "length (takeWhile ?P (rev axis))"
  have k: "getHabitStreak es axis habit = ?k" by (rule getHabitStreak_takeWhile)
  have kl: "?k \<le> length axis" using length_takeWhile_le [of ?P "rev axis"] by simp
  have jk: "j < ?k" using assms k by simp
  have "takeWhile ?P (rev axis) ! j \<in> set (takeWhile ?P (rev axis))"
    using jk by (rule nth_mem)
  then have "?P (takeWhile ?P (rev axis) ! j)"
    by (rule set_takeWhileD [THEN conjunct2])
  then have "?P (rev axis ! j)" using jk by (simp add: takeWhile_nth)
  moreover have "rev axis ! j = axis ! (length axis - Suc j)"
    using jk kl by (intro rev_nth) simp
  ultimately show ?thesis by simp
qed

lemma streak_le_length: "getHabitStreak es axis habit \<le> length axis"
  using length_takeWhile_le [of "doneOn es habit" "rev axis"]
  by (simp add: getHabitStreak_takeWhile)

lemma streak_stops:
  assumes "getHabitStreak es axis habit < length axis"
  shows "\<not> doneOn es habit (axis ! (length axis - 1 - getHabitStreak es axis habit))"
proof -
  let ?P = "doneOn es habit"
  let ?k = "length (takeWhile ?P (rev axis))"
  have k: "getHabitStreak es axis habit = ?k" by (rule getHabitStreak_takeWhile)
  have lt: "?k < length (rev axis)" using assms k by simp
  have "\<not> ?P (rev axis ! ?k)" using lt by (rule nth_length_takeWhile)
  moreover have "rev axis ! ?k = axis ! (length axis - Suc ?k)"
    using lt by (intro rev_nth) simp
  ultimately show ?thesis by (simp add: k)
qed

lemma streak_le_longest:
  "getHabitStreak es axis habit \<le> getHabitLongestStreak es axis habit"
proof -
  define k where "k = getHabitStreak es axis habit"
  have kl: "k \<le> length axis" unfolding k_def by (rule streak_le_length)
  have "\<forall>j<k. doneOn es habit (axis ! (length axis - k + j))"
  proof (intro allI impI)
    fix j assume jk: "j < k"
    then have "k - 1 - j < getHabitStreak es axis habit" by (simp add: k_def)
    then have "doneOn es habit (axis ! (length axis - 1 - (k - 1 - j)))"
      by (rule streak_tail_done)
    moreover have "length axis - 1 - (k - 1 - j) = length axis - k + j"
      using jk kl by simp
    ultimately show "doneOn es habit (axis ! (length axis - k + j))" by simp
  qed
  moreover have "length axis - k + k \<le> length axis" using kl by simp
  ultimately have "k \<le> getHabitLongestStreak es axis habit"
    by (rule longest_run_bound [rotated])
  then show ?thesis by (simp add: k_def)
qed

lemma streak_all_done:
  assumes "\<forall>d\<in>set axis. doneOn es habit d"
  shows "getHabitStreak es axis habit = length axis"
proof -
  have "\<forall>d\<in>set (rev axis). doneOn es habit d" using assms by simp
  then have "takeWhile (doneOn es habit) (rev axis) = rev axis"
    by (rule takeWhile_eq_all_conv [THEN iffD2])
  then have "length (takeWhile (doneOn es habit) (rev axis)) = length (rev axis)"
    by (rule arg_cong)
  then show ?thesis by (simp only: getHabitStreak_takeWhile length_rev)
qed

lemma streak_last_not_done:
  assumes "axis \<noteq> []" and "\<not> doneOn es habit (last axis)"
  shows "getHabitStreak es axis habit = 0"
proof -
  have "hd (rev axis) = last axis" using assms(1) by (simp add: hd_rev)
  then have "takeWhile (doneOn es habit) (rev axis) = []"
    using assms(2) by (simp add: takeWhile_eq_Nil_iff)
  then show ?thesis by (simp only: getHabitStreak_takeWhile list.size)
qed

lemma longest_loop_no_done:
  "\<forall>d\<in>set ds. \<not> doneOn es habit d \<Longrightarrow> longest_loop es habit ds mx cur = mx"
  by (induction ds arbitrary: cur) (simp_all add: ratio_pos_iff_doneOn)

lemma longest_loop_done_prefix:
  "cur \<le> mx \<Longrightarrow> \<forall>d\<in>set xs. doneOn es habit d \<Longrightarrow>
   longest_loop es habit (xs @ ys) mx cur =
     longest_loop es habit ys (max mx (cur + length xs)) (cur + length xs)"
proof (induction xs arbitrary: mx cur)
  case Nil
  then show ?case by (simp add: max_def)
next
  case (Cons x xs)
  have x: "doneOn es habit x" and xs: "\<forall>d\<in>set xs. doneOn es habit d"
    using Cons.prems by simp_all
  have le: "cur + 1 \<le> max mx (cur + 1)" by simp
  have "longest_loop es habit ((x # xs) @ ys) mx cur =
        longest_loop es habit (xs @ ys) (max mx (cur + 1)) (cur + 1)"
    using x by (simp add: ratio_pos_iff_doneOn Let_def max_def)
  also have "\<dots> = longest_loop es habit ys (max (max mx (cur + 1)) (cur + 1 + length xs))
                      (cur + 1 + length xs)"
    by (rule Cons.IH [OF le xs])
  also have "max (max mx (cur + 1)) (cur + 1 + length xs) = max mx (cur + length (x # xs))"
    by simp
  finally show ?case by simp
qed

lemma longest_loop_gap:
  "\<not> doneOn es habit g \<Longrightarrow>
   longest_loop es habit (g # ys) mx cur = longest_loop es habit ys mx 0"
  by (simp add: ratio_pos_iff_doneOn)

lemma doneOn_no_entries:
  "\<forall>e\<in>set es. e_habit_id e \<noteq> h_id habit \<Longrightarrow> \<not> doneOn es habit d"
proof -
  assume a: "\<forall>e\<in>set es. e_habit_id e \<noteq> h_id habit"
  have "find (\<lambda>e. e_habit_id e = h_id habit \<and> e_date e = d_date d) es = None"
    using a by (auto simp: find_None_iff)
  then show ?thesis by (simp add: doneOn_def getEntry_def)
qed

section \<open>The sample data\<close>

lemma exAxis_generated: "getDaysFromStartOfYear 1736856000000 0 = exAxis"
  by code_simp

lemmas sample_defs =
  doneOn_def getEntry_def exEntries_def exRow_def exHabit_def exHabit2_def exAxis_def

section \<open>Current streak\<close>

text \<open>
  Claim C1. \<open>getHabitStreak\<close> counts the done-days at the end of the axis, scanning from the
  last day backward: the count is the length of the longest all-done prefix of the reversed
  axis; the last \<open>k\<close> days are done-days and, unless the whole axis was counted, the day
  before them is not (its entry is \<open>false\<close> or absent). It is 0 when the last day of the
  axis is not done, and \<open>N\<close> when the habit is done on all \<open>N\<close> days of the axis.
\<close>

theorem C1_currentStreak:
  "getHabitStreak es axis habit = length (takeWhile (doneOn es habit) (rev axis)) \<and>
   getHabitStreak es axis habit \<le> length axis \<and>
   (\<forall>j<getHabitStreak es axis habit. doneOn es habit (axis ! (length axis - 1 - j))) \<and>
   (getHabitStreak es axis habit < length axis \<longrightarrow>
      \<not> doneOn es habit (axis ! (length axis - 1 - getHabitStreak es axis habit))) \<and>
   (axis \<noteq> [] \<and> \<not> doneOn es habit (last axis) \<longrightarrow> getHabitStreak es axis habit = 0) \<and>
   ((\<forall>d\<in>set axis. doneOn es habit d) \<longrightarrow> getHabitStreak es axis habit = length axis)"
proof (intro conjI allI impI)
  show "getHabitStreak es axis habit = length (takeWhile (doneOn es habit) (rev axis))"
    by (rule getHabitStreak_takeWhile)
  show "getHabitStreak es axis habit \<le> length axis"
    by (rule streak_le_length)
  show "doneOn es habit (axis ! (length axis - 1 - j))"
    if "j < getHabitStreak es axis habit" for j
    using that by (rule streak_tail_done)
  show "\<not> doneOn es habit (axis ! (length axis - 1 - getHabitStreak es axis habit))"
    if "getHabitStreak es axis habit < length axis"
    using that by (rule streak_stops)
  show "getHabitStreak es axis habit = 0"
    if "axis \<noteq> [] \<and> \<not> doneOn es habit (last axis)"
    using that by (intro streak_last_not_done) simp_all
  show "getHabitStreak es axis habit = length axis"
    if "\<forall>d\<in>set axis. doneOn es habit d"
    using that by (rule streak_all_done)
qed

text \<open>
  On the sample store: the whole axis ends with the run 13--14 January after the day without
  an entry, 12 January (streak 2); its first three days are all done (streak 3); its
  first four days end on the entry holding \<open>false\<close> (streak 0).
\<close>

theorem C1_currentStreak_witness:
  "getHabitStreak exEntries exAxis exHabit = 2 \<and>
   getHabitStreak exEntries exAxis exHabit < length exAxis \<and>
   \<not> doneOn exEntries exHabit (exAxis ! (length exAxis - 1 - 2)) \<and>
   doneOn exEntries exHabit (exAxis ! (length exAxis - 1 - 0)) \<and>
   doneOn exEntries exHabit (exAxis ! (length exAxis - 1 - 1)) \<and>
   list_all (doneOn exEntries exHabit) (take 3 exAxis) \<and>
   getHabitStreak exEntries (take 3 exAxis) exHabit = length (take 3 exAxis) \<and>
   take 4 exAxis \<noteq> [] \<and>
   \<not> doneOn exEntries exHabit (last (take 4 exAxis)) \<and>
   getHabitStreak exEntries (take 4 exAxis) exHabit = 0"
proof -
  have tw: "length (takeWhile (doneOn exEntries exHabit) (rev exAxis)) = 2"
    by (simp add: sample_defs)
  have k: "getHabitStreak exEntries exAxis exHabit = 2"
    using C1_currentStreak [of exEntries exAxis exHabit] tw by simp
  have lt: "getHabitStreak exEntries exAxis exHabit < length exAxis"
    by (simp add: k) (simp add: exAxis_def)
  have stop: "\<not> doneOn exEntries exHabit (exAxis ! (length exAxis - 1 - 2))"
    using C1_currentStreak [of exEntries exAxis exHabit] lt k by simp
  have run: "\<forall>j<2. doneOn exEntries exHabit (exAxis ! (length exAxis - 1 - j))"
    using C1_currentStreak [of exEntries exAxis exHabit] k by simp
  have all3: "\<forall>d\<in>set (take 3 exAxis). doneOn exEntries exHabit d"
    by (simp add: sample_defs)
  have n3: "getHabitStreak exEntries (take 3 exAxis) exHabit = length (take 3 exAxis)"
    using C1_currentStreak [of exEntries "take 3 exAxis" exHabit] all3 by blast
  have ne: "take 4 exAxis \<noteq> []" by (simp add: exAxis_def)
  have nd: "\<not> doneOn exEntries exHabit (last (take 4 exAxis))"
    by (simp add: sample_defs)
  have z: "getHabitStreak exEntries (take 4 exAxis) exHabit = 0"
    using C1_currentStreak [of exEntries "take 4 exAxis" exHabit] ne nd by blast
  have all3': "list_all (doneOn exEntries exHabit) (take 3 exAxis)"
    using all3 by (simp only: list_all_iff)
  have r0: "doneOn exEntries exHabit (exAxis ! (length exAxis - 1 - 0))"
    and r1: "doneOn exEntries exHabit (exAxis ! (length exAxis - 1 - 1))"
    using run by simp_all
  show ?thesis using k lt stop r0 r1 all3' n3 ne nd z by blast
qed

section \<open>Longest streak\<close>

text \<open>
  Claim C2. \<open>getHabitLongestStreak\<close> is the maximum length of a run of consecutive done-days
  of the axis: every stretch of \<open>n\<close> consecutive done-days, wherever it starts, has
  \<open>n\<close> at most the result, and some stretch of consecutive done-days has exactly the
  result as its length. A habit with no entries in the store gets 0. When the axis consists
  of five runs of done-days with one not-done day between neighbouring runs, the result is the
  greatest of the five lengths: 5 for the lengths 3, 0, 5, 0, 2.
\<close>

theorem C2_longestStreak:
  "(\<forall>i n. i + n \<le> length axis \<and> (\<forall>j<n. doneOn es habit (axis ! (i + j))) \<longrightarrow>
       n \<le> getHabitLongestStreak es axis habit) \<and>
   (\<exists>i. i + getHabitLongestStreak es axis habit \<le> length axis \<and>
       (\<forall>j<getHabitLongestStreak es axis habit. doneOn es habit (axis ! (i + j)))) \<and>
   ((\<forall>e\<in>set es. e_habit_id e \<noteq> h_id habit) \<longrightarrow> getHabitLongestStreak es axis habit = 0) \<and>
   (axis = a1 @ [g1] @ a2 @ [g2] @ a3 @ [g3] @ a4 @ [g4] @ a5 \<and>
    (\<forall>d\<in>set (a1 @ a2 @ a3 @ a4 @ a5). doneOn es habit d) \<and>
    \<not> doneOn es habit g1 \<and> \<not> doneOn es habit g2 \<and>
    \<not> doneOn es habit g3 \<and> \<not> doneOn es habit g4 \<longrightarrow>
    getHabitLongestStreak es axis habit =
      max (length a1) (max (length a2) (max (length a3) (max (length a4) (length a5)))) \<and>
    (length a1 = 3 \<and> length a2 = 0 \<and> length a3 = 5 \<and> length a4 = 0 \<and> length a5 = 2 \<longrightarrow>
       getHabitLongestStreak es axis habit = 5))"
proof (intro conjI)
  show "\<forall>i n. i + n \<le> length axis \<and> (\<forall>j<n. doneOn es habit (axis ! (i + j))) \<longrightarrow>
          n \<le> getHabitLongestStreak es axis habit"
    using longest_run_bound [of _ _ axis es habit] by blast
  show "\<exists>i. i + getHabitLongestStreak es axis habit \<le> length axis \<and>
          (\<forall>j<getHabitLongestStreak es axis habit. doneOn es habit (axis ! (i + j)))"
    by (rule longest_run_exists)
  show "(\<forall>e\<in>set es. e_habit_id e \<noteq> h_id habit) \<longrightarrow> getHabitLongestStreak es axis habit = 0"
  proof
    assume "\<forall>e\<in>set es. e_habit_id e \<noteq> h_id habit"
    then have "\<forall>d\<in>set axis. \<not> doneOn es habit d"
      using doneOn_no_entries [of es habit] by blast
    then show "getHabitLongestStreak es axis habit = 0"
      unfolding getHabitLongestStreak_def by (rule longest_loop_no_done)
  qed
  show "axis = a1 @ [g1] @ a2 @ [g2] @ a3 @ [g3] @ a4 @ [g4] @ a5 \<and>
    (\<forall>d\<in>set (a1 @ a2 @ a3 @ a4 @ a5). doneOn es habit d) \<and>
    \<not> doneOn es habit g1 \<and> \<not> doneOn es habit g2 \<and>
    \<not> doneOn es habit g3 \<and> \<not> doneOn es habit g4 \<longrightarrow>
    getHabitLongestStreak es axis habit =
      max (length a1) (max (length a2) (max (length a3) (max (length a4) (length a5)))) \<and>
    (length a1 = 3 \<and> length a2 = 0 \<and> length a3 = 5 \<and> length a4 = 0 \<and> length a5 = 2 \<longrightarrow>
       getHabitLongestStreak es axis habit = 5)"
  proof
    assume h: "axis = a1 @ [g1] @ a2 @ [g2] @ a3 @ [g3] @ a4 @ [g4] @ a5 \<and>
      (\<forall>d\<in>set (a1 @ a2 @ a3 @ a4 @ a5). doneOn es habit d) \<and>
      \<not> doneOn es habit g1 \<and> \<not> doneOn es habit g2 \<and>
      \<not> doneOn es habit g3 \<and> \<not> doneOn es habit g4"
    then have ax: "axis = a1 @ (g1 # a2 @ (g2 # a3 @ (g3 # a4 @ (g4 # a5 @ []))))" by simp
    have d1: "\<forall>d\<in>set a1. doneOn es habit d" and d2: "\<forall>d\<in>set a2. doneOn es habit d"
      and d3: "\<forall>d\<in>set a3. doneOn es habit d" and d4: "\<forall>d\<in>set a4. doneOn es habit d"
      and d5: "\<forall>d\<in>set a5. doneOn es habit d"
      using h by simp_all
    have g: "\<not> doneOn es habit g1" "\<not> doneOn es habit g2"
            "\<not> doneOn es habit g3" "\<not> doneOn es habit g4"
      using h by simp_all
    have "getHabitLongestStreak es axis habit =
          longest_loop es habit (g1 # a2 @ (g2 # a3 @ (g3 # a4 @ (g4 # a5 @ []))))
            (max 0 (0 + length a1)) (0 + length a1)"
      unfolding getHabitLongestStreak_def ax
      by (rule longest_loop_done_prefix [OF _ d1]) simp
    also have "\<dots> = longest_loop es habit (a2 @ (g2 # a3 @ (g3 # a4 @ (g4 # a5 @ []))))
            (length a1) 0"
      using g(1) by (simp add: longest_loop_gap del: longest_loop.simps)
    also have "\<dots> = longest_loop es habit (g2 # a3 @ (g3 # a4 @ (g4 # a5 @ [])))
            (max (length a1) (0 + length a2)) (0 + length a2)"
      by (rule longest_loop_done_prefix [OF _ d2]) simp
    also have "\<dots> = longest_loop es habit (a3 @ (g3 # a4 @ (g4 # a5 @ [])))
            (max (length a1) (length a2)) 0"
      using g(2) by (simp add: longest_loop_gap del: longest_loop.simps)
    also have "\<dots> = longest_loop es habit (g3 # a4 @ (g4 # a5 @ []))
            (max (max (length a1) (length a2)) (0 + length a3)) (0 + length a3)"
      by (rule longest_loop_done_prefix [OF _ d3]) simp
    also have "\<dots> = longest_loop es habit (a4 @ (g4 # a5 @ []))
            (max (max (length a1) (length a2)) (length a3)) 0"
      using g(3) by (simp add: longest_loop_gap del: longest_loop.simps)
    also have "\<dots> = longest_loop es habit (g4 # a5 @ [])
            (max (max (max (length a1) (length a2)) (length a3)) (0 + length a4))
            (0 + length a4)"
      by (rule longest_loop_done_prefix [OF _ d4]) simp
    also have "\<dots> = longest_loop es habit (a5 @ [])
            (max (max (max (length a1) (length a2)) (length a3)) (length a4)) 0"
      using g(4) by (simp add: longest_loop_gap del: longest_loop.simps)
    also have "\<dots> = longest_loop es habit []
            (max (max (max (max (length a1) (length a2)) (length a3)) (length a4))
               (0 + length a5))
            (0 + length a5)"
      by (rule longest_loop_done_prefix [OF _ d5]) simp
    finally have eq: "getHabitLongestStreak es axis habit =
        max (length a1) (max (length a2) (max (length a3) (max (length a4) (length a5))))"
      by (simp add: max.assoc)
    then show "getHabitLongestStreak es axis habit =
        max (length a1) (max (length a2) (max (length a3) (max (length a4) (length a5)))) \<and>
      (length a1 = 3 \<and> length a2 = 0 \<and> length a3 = 5 \<and> length a4 = 0 \<and> length a5 = 2 \<longrightarrow>
         getHabitLongestStreak es axis habit = 5)"
      by simp
  qed
qed

text \<open>
  On the sample store the runs of the first habit are 1--3, none, 6--10, none and 13--14
  January, the not-done days between them 4, 5, 11 and 12 January; the second habit has no
  entries.
\<close>

theorem C2_longestStreak_witness:
  "exAxis = take 3 exAxis @ [exAxis ! 3] @ [] @ [exAxis ! 4] @ take 5 (drop 5 exAxis) @
            [exAxis ! 10] @ [] @ [exAxis ! 11] @ drop 12 exAxis \<and>
   list_all (doneOn exEntries exHabit)
     (take 3 exAxis @ [] @ take 5 (drop 5 exAxis) @ [] @ drop 12 exAxis) \<and>
   \<not> doneOn exEntries exHabit (exAxis ! 3) \<and> \<not> doneOn exEntries exHabit (exAxis ! 4) \<and>
   \<not> doneOn exEntries exHabit (exAxis ! 10) \<and> \<not> doneOn exEntries exHabit (exAxis ! 11) \<and>
   getHabitLongestStreak exEntries exAxis exHabit = 5 \<and>
   5 + 5 \<le> length exAxis \<and>
   list_all (\<lambda>j. doneOn exEntries exHabit (exAxis ! (5 + j))) [0..<5] \<and>
   list_all (\<lambda>e. e_habit_id e \<noteq> h_id exHabit2) exEntries \<and>
   getHabitLongestStreak exEntries exAxis exHabit2 = 0"
proof -
  note C2 = C2_longestStreak [of exAxis exEntries exHabit "take 3 exAxis" "exAxis ! 3" "[]"
      "exAxis ! 4" "take 5 (drop 5 exAxis)" "exAxis ! 10" "[]" "exAxis ! 11" "drop 12 exAxis"]
  have split: "exAxis = take 3 exAxis @ [exAxis ! 3] @ [] @ [exAxis ! 4] @
      take 5 (drop 5 exAxis) @ [exAxis ! 10] @ [] @ [exAxis ! 11] @ drop 12 exAxis"
    by (simp add: exAxis_def)
  have runs: "\<forall>d\<in>set (take 3 exAxis @ [] @ take 5 (drop 5 exAxis) @ [] @ drop 12 exAxis).
      doneOn exEntries exHabit d"
    by (simp add: sample_defs)
  have gaps: "\<not> doneOn exEntries exHabit (exAxis ! 3)" "\<not> doneOn exEntries exHabit (exAxis ! 4)"
    "\<not> doneOn exEntries exHabit (exAxis ! 10)" "\<not> doneOn exEntries exHabit (exAxis ! 11)"
    by (simp_all add: sample_defs)
  have lens: "length (take 3 exAxis) = 3 \<and> length ([] :: day list) = 0 \<and>
      length (take 5 (drop 5 exAxis)) = 5 \<and> length ([] :: day list) = 0 \<and>
      length (drop 12 exAxis) = 2"
    by (simp add: exAxis_def)
  have five: "getHabitLongestStreak exEntries exAxis exHabit = 5"
    using C2 split runs gaps lens by blast
  have len: "5 + 5 \<le> length exAxis" by (simp add: exAxis_def)
  have mid: "\<forall>j<5. doneOn exEntries exHabit (exAxis ! (5 + j))"
  proof (intro allI impI)
    fix j :: nat assume "j < 5"
    then consider "j = 0" | "j = 1" | "j = 2" | "j = 3" | "j = 4" by linarith
    then show "doneOn exEntries exHabit (exAxis ! (5 + j))"
      by cases (simp_all add: sample_defs)
  qed
  have "5 \<le> getHabitLongestStreak exEntries exAxis exHabit"
    using C2 len mid by blast
  have none: "\<forall>e\<in>set exEntries. e_habit_id e \<noteq> h_id exHabit2"
    by (simp add: exEntries_def exRow_def exHabit2_def)
  have zero: "getHabitLongestStreak exEntries exAxis exHabit2 = 0"
    using C2_longestStreak [of exAxis exEntries exHabit2] none by blast
  have runs': "list_all (doneOn exEntries exHabit)
      (take 3 exAxis @ [] @ take 5 (drop 5 exAxis) @ [] @ drop 12 exAxis)"
    using runs by (simp only: list_all_iff)
  have mid': "list_all (\<lambda>j. doneOn exEntries exHabit (exAxis ! (5 + j))) [0..<5]"
    using mid by (simp add: list_all_iff)
  have none': "list_all (\<lambda>e. e_habit_id e \<noteq> h_id exHabit2) exEntries"
    using none by (simp only: list_all_iff)
  show ?thesis using split runs' gaps five len mid' none' zero by blast
qed

section \<open>Current and longest streak compared\<close>

text \<open>
  Claim C10. For every habit, axis and store, the current streak is at most the longest
  streak, and the longest streak (hence both) is at most the number of days of the axis.
\<close>

theorem C10_streak_bounds:
  "getHabitStreak es axis habit \<le> getHabitLongestStreak es axis habit \<and>
   getHabitLongestStreak es axis habit \<le> length axis \<and>
   getHabitStreak es axis habit \<le> length axis"
  using streak_le_longest [of es axis habit] longest_le_length [of es axis habit]
  by simp

section \<open>Overall completion rate\<close>

lemma round_half_even_error: "\<bar>of_int (round_half_even y) - y\<bar> \<le> 1 / 2"
proof -
  define f where "f = \<lfloor>y\<rfloor>"
  have lo: "of_int f \<le> y" and hi: "y < of_int f + 1"
    unfolding f_def by linarith+
  show ?thesis
    unfolding round_half_even_def Let_def f_def [symmetric]
    using lo hi by (auto simp: abs_if)
qed

lemma round_half_even_nonneg: "0 \<le> y \<Longrightarrow> 0 \<le> round_half_even y"
  unfolding round_half_even_def Let_def by (auto simp: zero_le_floor intro: add_nonneg_nonneg)

lemma binade_le:
  assumes "0 < x"
  shows "power_int 2 (binade x) \<le> x"
proof -
  obtain a b where q: "quotient_of x = (a, b)" by (cases "quotient_of x")
  have b: "0 < b" using q by (rule quotient_of_denom_pos)
  have x: "x = of_int a / of_int b" using q by (rule quotient_of_div)
  have a: "0 < a" using assms b unfolding x by (simp add: zero_less_divide_iff)
  define k where "k = bitlen a - bitlen b"
  show ?thesis
  proof (cases "power_int 2 k \<le> x")
    case True
    then show ?thesis by (simp add: binade_def q k_def)
  next
    case False
    then have e: "binade x = k - 1" by (simp add: binade_def q k_def)
    have ba: "1 \<le> bitlen a" using a by (auto simp: bitlen_alt_def)
    have bb: "0 \<le> bitlen b" by (rule bitlen_nonneg)
    have "(2::int) ^ nat (bitlen a - 1) \<le> a" using bitlen_bounds [OF a] by simp
    then have "(of_int ((2::int) ^ nat (bitlen a - 1)) :: rat) \<le> of_int a" by (simp only: of_int_le_iff)
    then have A: "power_int (2::rat) (bitlen a - 1) \<le> of_int a"
      using ba by (simp add: power_int_def)
    have "b < 2 ^ nat (bitlen b)" using bitlen_bounds [OF b] by simp
    then have "(of_int b :: rat) < of_int ((2::int) ^ nat (bitlen b))" by (simp only: of_int_less_iff)
    then have B: "(of_int b :: rat) \<le> power_int 2 (bitlen b)"
      using bb by (simp add: power_int_def)
    have "power_int (2::rat) (k - 1) * of_int b \<le> power_int 2 (k - 1) * power_int 2 (bitlen b)"
      using B by (intro mult_left_mono) simp_all
    also have "\<dots> = power_int 2 (bitlen a - 1)"
      by (simp add: k_def power_int_add [symmetric])
    also have "\<dots> \<le> of_int a" by (rule A)
    finally have "power_int (2::rat) (k - 1) \<le> of_int a / of_int b"
      using b by (simp add: pos_le_divide_eq)
    then have "power_int (2::rat) (binade x) \<le> of_int a / of_int b"
      by (simp only: e)
    then show ?thesis by (simp only: x [symmetric])
  qed
qed

lemma fl64_error:
  assumes "0 < x"
  shows "\<bar>fl64 x - x\<bar> \<le> x / 2 ^ 53"
proof -
  define ulp :: rat where "ulp = power_int 2 (binade x - 52)"
  define m where "m = round_half_even (x / ulp)"
  have up: "0 < ulp" by (simp add: ulp_def)
  have fl: "fl64 x = of_int m * ulp"
    using assms by (simp add: fl64_def Let_def ulp_def m_def)
  have "ulp = power_int 2 (binade x) / 2 ^ 52"
    by (simp add: ulp_def power_int_diff)
  also have "\<dots> \<le> x / 2 ^ 52"
    using binade_le [OF assms] by (simp add: divide_right_mono)
  finally have ulp_le: "ulp \<le> x / 2 ^ 52" .
  have eq: "fl64 x - x = (of_int m - x / ulp) * ulp"
    using up by (simp add: fl left_diff_distrib)
  have "\<bar>fl64 x - x\<bar> = \<bar>of_int m - x / ulp\<bar> * ulp"
    by (simp only: eq abs_mult abs_of_pos [OF up])
  also have "\<dots> \<le> 1 / 2 * ulp"
    using round_half_even_error [of "x / ulp"] up unfolding m_def
    by (intro mult_right_mono) simp_all
  also have "\<dots> \<le> 1 / 2 * (x / 2 ^ 52)"
    using ulp_le by simp
  also have "\<dots> = x / 2 ^ 53" by simp
  finally show ?thesis .
qed

lemma fl64_nonneg: "0 \<le> x \<Longrightarrow> 0 \<le> fl64 x"
  by (auto simp: fl64_def Let_def intro!: mult_nonneg_nonneg round_half_even_nonneg divide_nonneg_nonneg
      simp: less_le)


lemma floor_half: "\<lfloor>(1::rat) / 2\<rfloor> = 0"
  by (rule floor_unique) simp_all

lemma rate_zero: "Math_round (fl64 (fl64 (0 / of_nat p) * 100)) = 0"
  by (simp add: fl64_def Math_round_def floor_half)

lemma rate_nonneg: "0 \<le> Math_round (fl64 (fl64 (of_nat c / of_nat p) * 100))"
proof -
  have "0 \<le> fl64 (of_nat c / of_nat p)" by (rule fl64_nonneg) simp
  then have "0 \<le> fl64 (fl64 (of_nat c / of_nat p) * 100)" by (intro fl64_nonneg) simp
  then show ?thesis unfolding Math_round_def by (simp add: zero_le_floor)
qed

lemma rate_close:
  fixes c p :: nat
  assumes p: "0 < p" and c: "0 < c" and small: "600 * c < 2 ^ 53"
  shows "2 * \<bar>Math_round (fl64 (fl64 (of_nat c / of_nat p) * 100)) * int p - 100 * int c\<bar>
           \<le> int p"
proof -
  define xh :: rat where "xh = of_nat c / of_nat p"
  define q where "q = fl64 xh"
  define y where "y = fl64 (q * 100)"
  define X :: rat where "X = 100 * xh"
  define r where "r = Math_round y"
  define P :: rat where "P = of_nat p"
  have P: "0 < P" using p by (simp add: P_def)
  have xh: "0 < xh" using p c by (simp add: xh_def)
  have X: "0 < X" using xh by (simp add: X_def)
  have e1: "\<bar>q - xh\<bar> \<le> xh / 2 ^ 53" unfolding q_def by (rule fl64_error [OF xh])
  have q_le: "q \<le> 2 * xh"
  proof -
    have "q \<le> xh + xh / 2 ^ 53" using e1 by linarith
    also have "xh / 2 ^ 53 \<le> xh" using xh by (simp add: field_simps)
    finally show ?thesis by simp
  qed
  have q_pos: "0 < q"
  proof -
    have "xh / 2 ^ 53 < xh" using xh by (simp add: field_simps)
    then show ?thesis using e1 by linarith
  qed
  have e2: "\<bar>y - q * 100\<bar> \<le> q * 100 / 2 ^ 53"
    unfolding y_def by (rule fl64_error) (use q_pos in simp)
  have split: "y - X = (y - q * 100) + 100 * (q - xh)"
    by (simp add: X_def algebra_simps)
  have "\<bar>y - X\<bar> \<le> \<bar>y - q * 100\<bar> + \<bar>100 * (q - xh)\<bar>"
    unfolding split by (rule abs_triangle_ineq)
  also have "\<bar>100 * (q - xh)\<bar> = 100 * \<bar>q - xh\<bar>"
    by (simp only: abs_mult abs_numeral)
  finally have "\<bar>y - X\<bar> \<le> \<bar>y - q * 100\<bar> + 100 * \<bar>q - xh\<bar>" .
  also have "\<dots> \<le> q * 100 / 2 ^ 53 + 100 * (xh / 2 ^ 53)"
    by (intro add_mono mult_left_mono e1 e2) simp
  also have "\<dots> \<le> 2 * xh * 100 / 2 ^ 53 + 100 * (xh / 2 ^ 53)"
    using q_le by (simp add: divide_right_mono)
  also have "\<dots> = 300 * xh / 2 ^ 53" by simp
  finally have dy: "\<bar>y - X\<bar> \<le> 300 * xh / 2 ^ 53" .
  have "600 * (of_nat c :: rat) < 2 ^ 53"
    using small by (metis of_nat_less_iff of_nat_mult of_nat_numeral of_nat_power)
  then have "300 * xh * (2 * P) < 2 ^ 53"
    using P by (simp add: xh_def P_def)
  then have "300 * xh / 2 ^ 53 < 1 / (2 * P)"
    using P by (simp add: field_simps)
  then have d: "\<bar>y - X\<bar> < 1 / (2 * P)" using dy by linarith
  have lo: "of_int r \<le> y + 1 / 2" and hi: "y + 1 / 2 < of_int r + 1"
    unfolding r_def Math_round_def by linarith+
  define t where "t = 200 * int c - 2 * int p * r"
  have t: "of_int t = (X - of_int r) * (2 * P)"
    using P by (simp add: t_def X_def xh_def P_def field_simps)
  have inv: "1 / (2 * P) * (2 * P) = 1" using P by simp
  have up: "(X - of_int r) * (2 * P) < (1 / 2 + 1 / (2 * P)) * (2 * P)"
    using d hi P by (intro mult_strict_right_mono) linarith+
  have dn: "(- 1 / 2 - 1 / (2 * P)) * (2 * P) < (X - of_int r) * (2 * P)"
    using d lo P by (intro mult_strict_right_mono) linarith+
  have "(1 / 2 + 1 / (2 * P)) * (2 * P) = P + 1"
    using inv by (simp add: distrib_right)
  then have "(of_int t :: rat) < of_int (int p + 1)"
    using up t by (simp add: P_def)
  then have t_hi: "t < int p + 1" by (simp only: of_int_less_iff)
  have "(- 1 / 2 - 1 / (2 * P)) * (2 * P) = - P - 1"
    using inv by (simp add: left_diff_distrib)
  then have "(of_int (- int p - 1) :: rat) < of_int t"
    using dn t by (simp add: P_def)
  then have t_lo: "- int p - 1 < t" by (simp only: of_int_less_iff)
  define w where "w = r * int p"
  have "t = 200 * int c - 2 * w" by (simp add: t_def w_def)
  then have "2 * \<bar>w - 100 * int c\<bar> \<le> int p"
    using t_hi t_lo unfolding abs_if by (simp split: if_splits)
  then show ?thesis by (simp add: w_def r_def y_def q_def xh_def)
qed

text \<open>The rounding of the two operations shows at a tie: 23 true entries over 40 possible
  ones are 57.5 percent, and the computed product lies just below it.\<close>

lemma rate_tie_example: "Math_round (fl64 (fl64 (23 / 40) * 100)) = 57"
  by code_simp

lemma overallCompletionRate_empty:
  "length axis * max (length hs) 1 = 0 \<Longrightarrow> overallCompletionRate axis hs es = 0"
  by (simp add: overallCompletionRate_def Let_def)

lemma overallCompletionRate_pos:
  assumes "0 < length axis * max (length hs) 1"
  shows "overallCompletionRate axis hs es =
           Math_round (fl64 (fl64 (of_nat (length (filter e_value es)) /
                        of_nat (length axis * max (length hs) 1)) * 100))"
  using assms by (simp add: overallCompletionRate_def Let_def)

text \<open>
  Claim C6, as stated, at a store that holds a true entry while the habit list is empty (the
  rows of a deleted habit that the server still returns, say): one day, no habit, one true
  entry give 100, not 0.
\<close>

theorem C6_zero_habits_counterexample:
  "overallCompletionRate (take 1 exAxis) [] [exRow ''2025-01-01'' True] = 100"
  by code_simp

text \<open>
  Claim C6, amended. With \<open>P = |axis| \<times> max(|habits|, 1)\<close> and \<open>C\<close> the number of entries of
  the store holding \<open>true\<close>: the rate is 0 when \<open>P = 0\<close> (no division takes place);
  otherwise it is a whole number within one half of \<open>100 C / P\<close> (for every store of fewer
  than \<open>2\<^sup>5\<^sup>3 / 600\<close> true entries, where the rounding of the division and of the
  multiplication cannot carry the product across a half). It is never negative. With zero
  habits \<open>P\<close> is \<open>|axis|\<close>, and the rate is 0 whenever the store holds no true entry.
\<close>

theorem C6_overallCompletionRate:
  "(length axis * max (length hs) 1 = 0 \<longrightarrow> overallCompletionRate axis hs es = 0) \<and>
   (0 < length axis * max (length hs) 1 \<and> 600 * length (filter e_value es) < 2 ^ 53 \<longrightarrow>
      2 * \<bar>overallCompletionRate axis hs es * int (length axis * max (length hs) 1)
             - 100 * int (length (filter e_value es))\<bar>
        \<le> int (length axis * max (length hs) 1)) \<and>
   0 \<le> overallCompletionRate axis hs es \<and>
   (hs = [] \<longrightarrow> length axis * max (length hs) 1 = length axis) \<and>
   (length (filter e_value es) = 0 \<longrightarrow> overallCompletionRate axis hs es = 0)"
proof -
  define p where "p = length axis * max (length hs) 1"
  define c where "c = length (filter e_value es)"
  define r where "r = overallCompletionRate axis hs es"
  have E: "hs = [] \<longrightarrow> p = length axis" by (simp add: p_def)
  have "(p = 0 \<longrightarrow> r = 0) \<and>
        (0 < p \<and> 600 * c < 2 ^ 53 \<longrightarrow> 2 * \<bar>r * int p - 100 * int c\<bar> \<le> int p) \<and>
        0 \<le> r \<and> (hs = [] \<longrightarrow> p = length axis) \<and> (c = 0 \<longrightarrow> r = 0)"
  proof (cases "0 < p")
    case False
    then have "r = 0"
      using overallCompletionRate_empty [of axis hs es] by (simp add: p_def r_def)
    then show ?thesis using False E by simp
  next
    case True
    have rate: "r = Math_round (fl64 (fl64 (of_nat c / of_nat p) * 100))"
      using True overallCompletionRate_pos [of axis hs es] by (simp add: p_def c_def r_def)
    have C: "0 \<le> r" unfolding rate by (rule rate_nonneg)
    have D: "c = 0 \<longrightarrow> r = 0"
    proof
      assume "c = 0"
      then have "r = Math_round (fl64 (fl64 (0 / of_nat p) * 100))" by (simp add: rate)
      then show "r = 0" by (simp only: rate_zero)
    qed
    have A: "600 * c < 2 ^ 53 \<longrightarrow> 2 * \<bar>r * int p - 100 * int c\<bar> \<le> int p"
    proof (cases "c = 0")
      case True
      then show ?thesis using D by simp
    next
      case False
      then have c: "0 < c" by simp
      show ?thesis unfolding rate using rate_close [OF True c] by blast
    qed
    show ?thesis using True A C D E by simp
  qed
  then show ?thesis unfolding p_def c_def r_def .
qed

text \<open>
  On the sample axis of 14 days: two habits and the 10 true entries of the sample store give
  36 (1000 / 28 is 35.7), the one whole number within one half of it; no day at all gives
  0; no habit and a store holding only a \<open>false\<close> entry give 0.
\<close>

theorem C6_overallCompletionRate_witness:
  "0 < length exAxis * max (length [exHabit, exHabit2]) 1 \<and>
   600 * length (filter e_value exEntries) < 2 ^ 53 \<and>
   overallCompletionRate exAxis [exHabit, exHabit2] exEntries = 36 \<and>
   length ([] :: day list) * max (length [exHabit]) 1 = 0 \<and>
   overallCompletionRate [] [exHabit] exEntries = 0 \<and>
   length (filter e_value [exRow ''2025-01-04'' False]) = 0 \<and>
   overallCompletionRate exAxis [] [exRow ''2025-01-04'' False] = 0"
proof -
  define r where "r = overallCompletionRate exAxis [exHabit, exHabit2] exEntries"
  have p: "length exAxis * max (length [exHabit, exHabit2]) 1 = 28"
    by (simp add: exAxis_def)
  have c: "length (filter e_value exEntries) = 10"
    by (simp add: exEntries_def exRow_def)
  have small: "600 * length (filter e_value exEntries) < 2 ^ 53"
    by (simp add: c)
  have pos: "0 < length exAxis * max (length [exHabit, exHabit2]) 1"
    by (simp only: p)
  have "2 * \<bar>r * int (length exAxis * max (length [exHabit, exHabit2]) 1)
             - 100 * int (length (filter e_value exEntries))\<bar>
        \<le> int (length exAxis * max (length [exHabit, exHabit2]) 1)"
    unfolding r_def
    using C6_overallCompletionRate [of exAxis "[exHabit, exHabit2]" exEntries] pos small
    by blast
  then have "2 * \<bar>r * 28 - 1000\<bar> \<le> 28" by (simp only: p c) simp
  then have "r = 36" by (simp add: abs_if split: if_splits)
  then have r: "overallCompletionRate exAxis [exHabit, exHabit2] exEntries = 36"
    by (simp add: r_def)
  have e: "length ([] :: day list) * max (length [exHabit]) 1 = 0" by simp
  have z: "overallCompletionRate [] [exHabit] exEntries = 0"
    using C6_overallCompletionRate [of "[]" "[exHabit]" exEntries] e by blast
  have f: "length (filter e_value [exRow ''2025-01-04'' False]) = 0"
    by (simp add: exRow_def)
  have n: "overallCompletionRate exAxis [] [exRow ''2025-01-04'' False] = 0"
    using C6_overallCompletionRate [of exAxis "[]" "[exRow ''2025-01-04'' False]"] f by blast
  show ?thesis using pos small r e z f n by (intro conjI)
qed

section \<open>Best habit\<close>

lemma insert_cmp_not_Nil: "insert_cmp cmp x ys \<noteq> []"
  by (cases ys) simp_all

lemma hd_insert_cmp:
  "hd (insert_cmp cmp x ys) = (if ys = [] \<or> cmp x (hd ys) \<le> 0 then x else hd ys)"
  by (cases ys) simp_all

lemma js_sort_Cons: "js_sort cmp (x # xs) = insert_cmp cmp x (js_sort cmp xs)"
  by (simp add: js_sort_def)

lemma js_sort_Nil_iff: "js_sort cmp xs = [] \<longleftrightarrow> xs = []"
  by (cases xs) (simp_all add: js_sort_def insert_cmp_not_Nil)

text \<open>Sorting by descending key puts first the earliest element whose key is greatest.\<close>

lemma hd_js_sort_desc:
  fixes key :: "'a \<Rightarrow> nat"
  assumes "xs \<noteq> []"
  shows "\<exists>i<length xs. hd (js_sort (\<lambda>a b. int (key b) - int (key a)) xs) = xs ! i \<and>
           (\<forall>j<length xs. key (xs ! j) \<le> key (xs ! i)) \<and>
           (\<forall>j<i. key (xs ! j) < key (xs ! i))"
  using assms
proof (induction xs)
  case Nil
  then show ?case by simp
next
  case (Cons x xs)
  let ?cmp = "\<lambda>a b. int (key b) - int (key a)"
  show ?case
  proof (cases "xs = []")
    case True
    then show ?thesis by (simp add: js_sort_def)
  next
    case False
    then obtain i where i: "i < length xs"
      and hd: "hd (js_sort ?cmp xs) = xs ! i"
      and mx: "\<forall>j<length xs. key (xs ! j) \<le> key (xs ! i)"
      and fst: "\<forall>j<i. key (xs ! j) < key (xs ! i)"
      using Cons.IH by blast
    have ne: "js_sort ?cmp xs \<noteq> []" using False by (simp add: js_sort_Nil_iff)
    show ?thesis
    proof (cases "key (xs ! i) \<le> key x")
      case True
      have "hd (js_sort ?cmp (x # xs)) = (x # xs) ! 0"
        using True ne hd by (simp add: js_sort_Cons hd_insert_cmp)
      moreover have "\<forall>j<length (x # xs). key ((x # xs) ! j) \<le> key ((x # xs) ! 0)"
      proof (intro allI impI)
        fix j assume "j < length (x # xs)"
        then show "key ((x # xs) ! j) \<le> key ((x # xs) ! 0)"
          using mx True by (cases j) (auto intro: order_trans)
      qed
      ultimately show ?thesis by (intro exI [of _ 0]) simp
    next
      case lt: False
      have "hd (js_sort ?cmp (x # xs)) = (x # xs) ! Suc i"
        using lt ne hd by (simp add: js_sort_Cons hd_insert_cmp)
      moreover have "\<forall>j<length (x # xs). key ((x # xs) ! j) \<le> key ((x # xs) ! Suc i)"
      proof (intro allI impI)
        fix j assume "j < length (x # xs)"
        then show "key ((x # xs) ! j) \<le> key ((x # xs) ! Suc i)"
          using mx lt by (cases j) auto
      qed
      moreover have "\<forall>j<Suc i. key ((x # xs) ! j) < key ((x # xs) ! Suc i)"
      proof (intro allI impI)
        fix j assume "j < Suc i"
        then show "key ((x # xs) ! j) < key ((x # xs) ! Suc i)"
          using fst lt by (cases j) auto
      qed
      ultimately show ?thesis using i by (intro exI [of _ "Suc i"]) simp
    qed
  qed
qed

lemma longest_exHabit: "getHabitLongestStreak exEntries exAxis exHabit = 5"
  by (simp add: getHabitLongestStreak_def getHabitDayRatio_def getEntry_def exEntries_def
      exRow_def exHabit_def exAxis_def)

lemma longest_exHabit2: "getHabitLongestStreak exEntries exAxis exHabit2 = 0"
  by (simp add: getHabitLongestStreak_def getHabitDayRatio_def getEntry_def exEntries_def
      exRow_def exHabit2_def exAxis_def)

lemma longest_exHabit3: "getHabitLongestStreak exEntries exAxis exHabit3 = 0"
  by (simp add: getHabitLongestStreak_def getHabitDayRatio_def getEntry_def exEntries_def
      exRow_def exHabit3_def exAxis_def)

text \<open>
  Claim C7. For a non-empty habit list \<open>bestHabit\<close> is the habit at some position \<open>i\<close> of
  the list, paired with its longest streak, such that no habit of the list has a longer
  longest streak and every habit before position \<open>i\<close> has a strictly shorter one: the first
  habit, in the order of the list (the order of creation, as fetched and appended), among
  those of maximal longest streak. For the empty list it is \<open>None\<close> (\<^verbatim>\<open>null\<close>).
\<close>

theorem C7_bestHabit:
  "bestHabit es axis [] = None \<and>
   (hs \<noteq> [] \<longrightarrow>
      (\<exists>i<length hs.
          bestHabit es axis hs =
            Some \<lparr>r_habit = hs ! i, r_streak = getHabitLongestStreak es axis (hs ! i)\<rparr> \<and>
          (\<forall>j<length hs. getHabitLongestStreak es axis (hs ! j)
                            \<le> getHabitLongestStreak es axis (hs ! i)) \<and>
          (\<forall>j<i. getHabitLongestStreak es axis (hs ! j)
                    < getHabitLongestStreak es axis (hs ! i))))"
proof (intro conjI impI)
  show "bestHabit es axis [] = None" by (simp add: bestHabit_def)
next
  assume ne: "hs \<noteq> []"
  let ?mk = "\<lambda>h. \<lparr>r_habit = h, r_streak = getHabitLongestStreak es axis h\<rparr>"
  let ?xs = "map ?mk hs"
  let ?sorted = "js_sort (\<lambda>a b. int (r_streak b) - int (r_streak a)) ?xs"
  have xs_ne: "?xs \<noteq> []" using ne by simp
  then obtain i where i: "i < length ?xs"
    and hd: "hd ?sorted = ?xs ! i"
    and mx: "\<forall>j<length ?xs. r_streak (?xs ! j) \<le> r_streak (?xs ! i)"
    and fst: "\<forall>j<i. r_streak (?xs ! j) < r_streak (?xs ! i)"
    using hd_js_sort_desc [of ?xs r_streak] by blast
  have il: "i < length hs" using i by simp
  have sorted_ne: "?sorted \<noteq> []" using xs_ne by (simp only: js_sort_Nil_iff not_False_eq_True)
  have "bestHabit es axis hs = Some (hd ?sorted)"
    using ne sorted_ne by (simp add: bestHabit_def split: list.splits)
  then have best: "bestHabit es axis hs = Some (?mk (hs ! i))"
    using hd il by simp
  have mx': "\<forall>j<length hs. getHabitLongestStreak es axis (hs ! j)
                \<le> getHabitLongestStreak es axis (hs ! i)"
    using mx il by simp
  have fst': "\<forall>j<i. getHabitLongestStreak es axis (hs ! j)
                < getHabitLongestStreak es axis (hs ! i)"
    using fst il by simp
  show "\<exists>i<length hs.
          bestHabit es axis hs =
            Some \<lparr>r_habit = hs ! i, r_streak = getHabitLongestStreak es axis (hs ! i)\<rparr> \<and>
          (\<forall>j<length hs. getHabitLongestStreak es axis (hs ! j)
                            \<le> getHabitLongestStreak es axis (hs ! i)) \<and>
          (\<forall>j<i. getHabitLongestStreak es axis (hs ! j)
                    < getHabitLongestStreak es axis (hs ! i))"
    using il best mx' fst' by blast
qed

text \<open>
  On the sample store the longest streaks of the three habits are 0, 5 and 0 in the order
  \<open>[exHabit2, exHabit, exHabit3]\<close>, so the best habit is the second; of the two habits
  \<open>[exHabit2, exHabit3]\<close>, tied at 0, it is the first.
\<close>

theorem C7_bestHabit_witness:
  "[exHabit2, exHabit, exHabit3] \<noteq> [] \<and>
   bestHabit exEntries exAxis [exHabit2, exHabit, exHabit3] =
     Some \<lparr>r_habit = exHabit, r_streak = 5\<rparr> \<and>
   [exHabit2, exHabit3] \<noteq> [] \<and>
   bestHabit exEntries exAxis [exHabit2, exHabit3] = Some \<lparr>r_habit = exHabit2, r_streak = 0\<rparr>"
proof -
  let ?L = "getHabitLongestStreak exEntries exAxis"
  let ?hs = "[exHabit2, exHabit, exHabit3]"
  have ne: "?hs \<noteq> []" by simp
  obtain i where i: "i < length ?hs"
    and best: "bestHabit exEntries exAxis ?hs = Some \<lparr>r_habit = ?hs ! i, r_streak = ?L (?hs ! i)\<rparr>"
    and mx: "\<forall>j<length ?hs. ?L (?hs ! j) \<le> ?L (?hs ! i)"
    using C7_bestHabit [of exEntries exAxis ?hs] ne by blast
  have "?L (?hs ! 1) \<le> ?L (?hs ! i)" using mx [rule_format, of 1] by simp
  then have five: "5 \<le> ?L (?hs ! i)" by (simp add: longest_exHabit)
  have "i = 0 \<or> i = 1 \<or> i = 2" using i by auto
  then have i1: "i = 1"
    using five by (auto simp: longest_exHabit2 longest_exHabit3)
  have first: "bestHabit exEntries exAxis ?hs = Some \<lparr>r_habit = exHabit, r_streak = 5\<rparr>"
    using best by (simp add: i1 longest_exHabit)
  let ?ts = "[exHabit2, exHabit3]"
  have ne2: "?ts \<noteq> []" by simp
  obtain k where k: "k < length ?ts"
    and best2: "bestHabit exEntries exAxis ?ts = Some \<lparr>r_habit = ?ts ! k, r_streak = ?L (?ts ! k)\<rparr>"
    and fst2: "\<forall>j<k. ?L (?ts ! j) < ?L (?ts ! k)"
    using C7_bestHabit [of exEntries exAxis ?ts] ne2 by blast
  have "k = 0 \<or> k = 1" using k by auto
  then have k0: "k = 0"
  proof
    assume "k = 0" then show ?thesis .
  next
    assume k1: "k = 1"
    then have "?L (?ts ! 0) < ?L (?ts ! 1)" using fst2 [rule_format, of 0] by simp
    then show ?thesis by (simp add: longest_exHabit2 longest_exHabit3)
  qed
  have second: "bestHabit exEntries exAxis ?ts = Some \<lparr>r_habit = exHabit2, r_streak = 0\<rparr>"
    using best2 by (simp add: k0 longest_exHabit2)
  show ?thesis using ne first ne2 second by simp
qed

section \<open>Upsert into the local store\<close>

lemma spread_data: "spread old data = data"
  by (simp add: spread_def)

lemma findIndex_None_iff: "findIndex P xs = None \<longleftrightarrow> (\<forall>x\<in>set xs. \<not> P x)"
  by (induction xs) auto

lemma findIndex_Some:
  "findIndex P xs = Some i \<Longrightarrow> i < length xs \<and> P (xs ! i) \<and> (\<forall>j<i. \<not> P (xs ! j))"
proof (induction xs arbitrary: i)
  case Nil
  then show ?case by simp
next
  case (Cons x xs)
  show ?case
  proof (cases "P x")
    case True
    then show ?thesis using Cons.prems by auto
  next
    case False
    then obtain k where k: "findIndex P xs = Some k" and i: "i = Suc k"
      using Cons.prems by auto
    have "k < length xs \<and> P (xs ! k) \<and> (\<forall>j<k. \<not> P (xs ! j))"
      using k by (rule Cons.IH)
    then show ?thesis using False i by (auto simp: less_Suc_eq_0_disj)
  qed
qed

lemma findIndex_first:
  "i < length xs \<Longrightarrow> P (xs ! i) \<Longrightarrow> \<forall>j<i. \<not> P (xs ! j) \<Longrightarrow> findIndex P xs = Some i"
proof (induction xs arbitrary: i)
  case Nil
  then show ?case by simp
next
  case (Cons x xs)
  show ?case
  proof (cases i)
    case 0
    then show ?thesis using Cons.prems by simp
  next
    case (Suc k)
    have nx: "\<not> P x" using Cons.prems(3) Suc by auto
    have "findIndex P xs = Some k"
      using Cons.prems Suc by (intro Cons.IH) auto
    then show ?thesis using nx Suc by simp
  qed
qed

lemma find_first:
  "i < length xs \<Longrightarrow> P (xs ! i) \<Longrightarrow> \<forall>j<i. \<not> P (xs ! j) \<Longrightarrow> find P xs = Some (xs ! i)"
proof (induction xs arbitrary: i)
  case Nil
  then show ?case by simp
next
  case (Cons x xs)
  show ?case
  proof (cases i)
    case 0
    then show ?thesis using Cons.prems by simp
  next
    case (Suc k)
    have nx: "\<not> P x" using Cons.prems(3) Suc by auto
    have "find P xs = Some (xs ! k)"
      using Cons.prems Suc by (intro Cons.IH) auto
    then show ?thesis using nx Suc by simp
  qed
qed

text \<open>After the updater has run with a row of the key it was called for, that row is the
  first one of its key, at the position where the updater wrote it.\<close>

lemma updater_position:
  assumes key: "e_habit_id data = h \<and> e_date data = d"
  defines "P \<equiv> \<lambda>e. e_habit_id e = h \<and> e_date e = d"
  shows "\<exists>i. i < length (setEntries_updater h d data prev) \<and>
             setEntries_updater h d data prev ! i = data \<and>
             (\<forall>j<i. \<not> P (setEntries_updater h d data prev ! j)) \<and>
             setEntries_updater h d data prev = (setEntries_updater h d data prev)[i := data]"
proof (cases "findIndex P prev")
  case None
  then have no: "\<forall>x\<in>set prev. \<not> P x" by (simp add: findIndex_None_iff)
  have upd: "setEntries_updater h d data prev = prev @ [data]"
    using None by (simp add: setEntries_updater_def P_def)
  have "\<forall>j<length prev. \<not> P ((prev @ [data]) ! j)"
    using no by (simp add: nth_append)
  then show ?thesis unfolding upd by (intro exI [of _ "length prev"]) simp
next
  case (Some i)
  then have i: "i < length prev" and before: "\<forall>j<i. \<not> P (prev ! j)"
    using findIndex_Some [of P prev i] by simp_all
  have upd: "setEntries_updater h d data prev = prev[i := data]"
    using Some by (simp add: setEntries_updater_def P_def spread_data)
  have "\<forall>j<i. \<not> P (prev[i := data] ! j)" using before by simp
  then show ?thesis unfolding upd using i by (intro exI [of _ i]) simp
qed

lemma updater_idempotent:
  assumes key: "e_habit_id data = h \<and> e_date data = d"
  shows "setEntries_updater h d data (setEntries_updater h d data prev) =
         setEntries_updater h d data prev"
proof -
  let ?P = "\<lambda>e. e_habit_id e = h \<and> e_date e = d"
  let ?once = "setEntries_updater h d data prev"
  obtain i where i: "i < length ?once" and at: "?once ! i = data"
    and before: "\<forall>j<i. \<not> ?P (?once ! j)" and same: "?once = ?once[i := data]"
    using updater_position [OF key, of prev] by blast
  have "?P (?once ! i)" using at key by simp
  then have "findIndex ?P ?once = Some i"
    using i before by (intro findIndex_first) simp_all
  then have "setEntries_updater h d data ?once = ?once[i := data]"
    by (simp add: setEntries_updater_def spread_data)
  then show ?thesis using same by simp
qed

lemma updater_getEntry:
  assumes key: "e_habit_id data = h \<and> e_date data = d"
  shows "getEntry (setEntries_updater h d data prev) h d = Some data"
proof -
  let ?P = "\<lambda>e. e_habit_id e = h \<and> e_date e = d"
  let ?once = "setEntries_updater h d data prev"
  obtain i where i: "i < length ?once" and at: "?once ! i = data"
    and before: "\<forall>j<i. \<not> ?P (?once ! j)"
    using updater_position [OF key, of prev] by blast
  have "?P (?once ! i)" using at key by simp
  then have "find ?P ?once = Some (?once ! i)"
    using i before by (intro find_first) simp_all
  then show ?thesis by (simp add: getEntry_def at)
qed

lemma updater_distinct:
  assumes key: "e_habit_id data = h \<and> e_date data = d"
    and dist: "distinct (map entry_key prev)"
  shows "distinct (map entry_key (setEntries_updater h d data prev))"
proof (cases "findIndex (\<lambda>e. e_habit_id e = h \<and> e_date e = d) prev")
  case None
  then have "\<forall>x\<in>set prev. \<not> (e_habit_id x = h \<and> e_date x = d)"
    by (simp add: findIndex_None_iff)
  then have "entry_key data \<notin> entry_key ` set prev"
    using key by (auto simp: entry_key_def)
  then show ?thesis using None dist by (simp add: setEntries_updater_def)
next
  case (Some i)
  then have i: "i < length prev" and at: "e_habit_id (prev ! i) = h \<and> e_date (prev ! i) = d"
    using findIndex_Some [of "\<lambda>e. e_habit_id e = h \<and> e_date e = d" prev i] by simp_all
  have "entry_key data = entry_key (prev ! i)" using key at by (simp add: entry_key_def)
  then have "map entry_key (prev[i := data]) = map entry_key prev"
    using i by (simp add: map_update list_update_same_conv)
  then show ?thesis using Some dist by (simp add: setEntries_updater_def spread_data)
qed

lemma updater_other_key:
  assumes "h' \<noteq> h \<or> d' \<noteq> d" and key: "e_habit_id data = h \<and> e_date data = d"
  shows "getEntry (setEntries_updater h d data prev) h' d' = getEntry prev h' d'"
proof -
  let ?Q = "\<lambda>e. e_habit_id e = h' \<and> e_date e = d'"
  have nq: "\<not> ?Q data" using assms by auto
  have app: "find ?Q (xs @ [data]) = find ?Q xs" for xs
    using nq by (induction xs) simp_all
  have upd: "find ?Q (xs[i := data]) = find ?Q xs"
    if "i < length xs" "e_habit_id (xs ! i) = h \<and> e_date (xs ! i) = d" for xs i
    using that
  proof (induction xs arbitrary: i)
    case Nil
    then show ?case by simp
  next
    case (Cons x xs)
    show ?case
    proof (cases i)
      case 0
      then have "\<not> ?Q x" using Cons.prems(2) assms(1) by auto
      then show ?thesis using 0 nq by auto
    next
      case (Suc k)
      then have "find ?Q (xs[k := data]) = find ?Q xs"
        using Cons.prems by (intro Cons.IH) simp_all
      then show ?thesis using Suc by simp
    qed
  qed
  show ?thesis
  proof (cases "findIndex (\<lambda>e. e_habit_id e = h \<and> e_date e = d) prev")
    case None
    then show ?thesis by (simp add: setEntries_updater_def getEntry_def app)
  next
    case (Some i)
    then have "i < length prev" "e_habit_id (prev ! i) = h \<and> e_date (prev ! i) = d"
      using findIndex_Some [of "\<lambda>e. e_habit_id e = h \<and> e_date e = d" prev i] by simp_all
    then have "find ?Q (prev[i := data]) = find ?Q prev" by (rule upd)
    then show ?thesis using Some by (simp add: setEntries_updater_def getEntry_def spread_data)
  qed
qed

text \<open>
  Claim C9. The upsert of the local store is the updater that \<open>updateEntry\<close> hands to
  \<^verbatim>\<open>setEntries\<close> with the row the server returned. When that row carries the habit and the
  date the call was made for, running the updater twice leaves the store as running it once
  does, and so do two successive successful calls of \<open>updateEntry\<close>; a store with at most
  one entry per (habit, date) key keeps that property, the empty store having it; the
  lookup of the key then yields the row.
\<close>

theorem C9_upsert_idempotent:
  "e_habit_id data = h \<and> e_date data = d \<longrightarrow>
     setEntries_updater h d data (setEntries_updater h d data prev) =
       setEntries_updater h d data prev \<and>
     entries (updateEntry_resolved h d (Inr data) (updateEntry_call h d v
               (updateEntry_resolved h d (Inr data) (updateEntry_call h d v s)))) =
       entries (updateEntry_resolved h d (Inr data) (updateEntry_call h d v s)) \<and>
     (distinct (map entry_key prev) \<longrightarrow>
        distinct (map entry_key (setEntries_updater h d data prev))) \<and>
     distinct (map entry_key (setEntries_updater h d data [])) \<and>
     getEntry (setEntries_updater h d data prev) h d = Some data"
proof
  assume key: "e_habit_id data = h \<and> e_date data = d"
  have call: "entries (updateEntry_call h d v t) = entries t" for t
    by (simp add: updateEntry_call_def split: option.splits)
  have res: "entries (updateEntry_resolved h d (Inr data) t) =
             setEntries_updater h d data (entries t)" for t
    by (simp add: updateEntry_resolved_def)
  have twice: "entries (updateEntry_resolved h d (Inr data) (updateEntry_call h d v
               (updateEntry_resolved h d (Inr data) (updateEntry_call h d v s)))) =
       entries (updateEntry_resolved h d (Inr data) (updateEntry_call h d v s))"
    by (simp only: res call updater_idempotent [OF key])
  have empty: "distinct (map entry_key (setEntries_updater h d data []))"
    by (rule updater_distinct [OF key]) simp
  show "setEntries_updater h d data (setEntries_updater h d data prev) =
       setEntries_updater h d data prev \<and>
     entries (updateEntry_resolved h d (Inr data) (updateEntry_call h d v
               (updateEntry_resolved h d (Inr data) (updateEntry_call h d v s)))) =
       entries (updateEntry_resolved h d (Inr data) (updateEntry_call h d v s)) \<and>
     (distinct (map entry_key prev) \<longrightarrow>
        distinct (map entry_key (setEntries_updater h d data prev))) \<and>
     distinct (map entry_key (setEntries_updater h d data [])) \<and>
     getEntry (setEntries_updater h d data prev) h d = Some data"
    using updater_idempotent [OF key, of prev] twice updater_distinct [OF key, of prev]
      empty updater_getEntry [OF key, of prev]
    by blast
qed

text \<open>
  On the sample store: writing \<open>true\<close> for 5 January, a day without an entry, appends one
  row, and writing \<open>true\<close> over the \<open>false\<close> entry of 4 January replaces it in place; a
  second run changes nothing, and the keys stay distinct.
\<close>

theorem C9_upsert_idempotent_witness:
  "e_habit_id (exRow ''2025-01-05'' True) = ''h1'' \<and>
   e_date (exRow ''2025-01-05'' True) = ''2025-01-05'' \<and>
   distinct (map entry_key exEntries) \<and>
   setEntries_updater ''h1'' ''2025-01-05'' (exRow ''2025-01-05'' True) exEntries =
     exEntries @ [exRow ''2025-01-05'' True] \<and>
   setEntries_updater ''h1'' ''2025-01-05'' (exRow ''2025-01-05'' True)
       (exEntries @ [exRow ''2025-01-05'' True]) =
     exEntries @ [exRow ''2025-01-05'' True] \<and>
   distinct (map entry_key (exEntries @ [exRow ''2025-01-05'' True])) \<and>
   setEntries_updater ''h1'' ''2025-01-04'' (exRow ''2025-01-04'' True) exEntries =
     exEntries[3 := exRow ''2025-01-04'' True] \<and>
   setEntries_updater ''h1'' ''2025-01-04'' (exRow ''2025-01-04'' True)
       (exEntries[3 := exRow ''2025-01-04'' True]) =
     exEntries[3 := exRow ''2025-01-04'' True]"
proof -
  have k5: "e_habit_id (exRow ''2025-01-05'' True) = ''h1'' \<and>
            e_date (exRow ''2025-01-05'' True) = ''2025-01-05''"
    by (simp add: exRow_def)
  have k4: "e_habit_id (exRow ''2025-01-04'' True) = ''h1'' \<and>
            e_date (exRow ''2025-01-04'' True) = ''2025-01-04''"
    by (simp add: exRow_def)
  have dist: "distinct (map entry_key exEntries)"
    by (simp add: exEntries_def exRow_def entry_key_def)
  have once5: "setEntries_updater ''h1'' ''2025-01-05'' (exRow ''2025-01-05'' True) exEntries =
      exEntries @ [exRow ''2025-01-05'' True]"
    by (simp add: setEntries_updater_def exEntries_def exRow_def)
  have once4: "setEntries_updater ''h1'' ''2025-01-04'' (exRow ''2025-01-04'' True) exEntries =
      exEntries[3 := exRow ''2025-01-04'' True]"
    by (simp add: setEntries_updater_def exEntries_def exRow_def spread_def)
  note C9_5 = C9_upsert_idempotent [of "exRow ''2025-01-05'' True" "''h1''" "''2025-01-05''"
      exEntries True exDashboard]
  note C9_4 = C9_upsert_idempotent [of "exRow ''2025-01-04'' True" "''h1''" "''2025-01-04''"
      exEntries True exDashboard]
  have twice5: "setEntries_updater ''h1'' ''2025-01-05'' (exRow ''2025-01-05'' True)
       (exEntries @ [exRow ''2025-01-05'' True]) = exEntries @ [exRow ''2025-01-05'' True]"
    using C9_5 k5 unfolding once5 by blast
  have dist5: "distinct (map entry_key (exEntries @ [exRow ''2025-01-05'' True]))"
    using C9_5 k5 dist unfolding once5 by blast
  have twice4: "setEntries_updater ''h1'' ''2025-01-04'' (exRow ''2025-01-04'' True)
       (exEntries[3 := exRow ''2025-01-04'' True]) = exEntries[3 := exRow ''2025-01-04'' True]"
    using C9_4 k4 unfolding once4 by blast
  show ?thesis using k5 dist once5 twice5 dist5 once4 twice4 by blast
qed

section \<open>Deleting a habit\<close>

lemma find_filter_None:
  "find (\<lambda>e. e_habit_id e = H \<and> e_date e = d) (filter (\<lambda>e. e_habit_id e \<noteq> H) es) = None"
  by (auto simp: find_None_iff)

lemma find_filter_other:
  "h' \<noteq> H \<Longrightarrow>
   find (\<lambda>e. e_habit_id e = h' \<and> e_date e = d) (filter (\<lambda>e. e_habit_id e \<noteq> H) es) =
   find (\<lambda>e. e_habit_id e = h' \<and> e_date e = d) es"
  by (induction es) auto

text \<open>
  Claim C8. After \<open>handleDeleteHabit\<close> has run for habit \<open>H\<close> in a session with a user and
  the remote delete has succeeded, the local store holds no entry of \<open>H\<close>: the lookup of
  \<open>(H, d)\<close> finds nothing for any date \<open>d\<close>, so every read of it gives the not-done
  default (ratio 0, not done). The entries of every other habit are the same rows in the
  same order and are looked up as before, and the habit list is the old one without
  \<open>H\<close>.
\<close>

theorem C8_delete_habit:
  "user s \<noteq> None \<longrightarrow>
     (\<forall>d. getEntry (entries (handleDeleteHabit H None s)) H d = None) \<and>
     (\<forall>hb dy. h_id hb = H \<longrightarrow>
         getHabitDayRatio (entries (handleDeleteHabit H None s)) hb (d_date dy) = 0 \<and>
         \<not> cellDone (handleDeleteHabit H None s) hb dy) \<and>
     (\<forall>e\<in>set (entries (handleDeleteHabit H None s)). e_habit_id e \<noteq> H) \<and>
     (\<forall>h' d. h' \<noteq> H \<longrightarrow>
         getEntry (entries (handleDeleteHabit H None s)) h' d = getEntry (entries s) h' d) \<and>
     entries (handleDeleteHabit H None s) = filter (\<lambda>e. e_habit_id e \<noteq> H) (entries s) \<and>
     habits (handleDeleteHabit H None s) = filter (\<lambda>h. h_id h \<noteq> H) (habits s) \<and>
     (\<forall>hb\<in>set (habits s). h_id hb \<noteq> H \<longrightarrow> hb \<in> set (habits (handleDeleteHabit H None s))) \<and>
     (\<forall>e\<in>set (entries s). e_habit_id e \<noteq> H \<longrightarrow> e \<in> set (entries (handleDeleteHabit H None s)))"
proof
  assume "user s \<noteq> None"
  then obtain uid where u: "user s = Some uid" by auto
  have es: "entries (handleDeleteHabit H None s) = filter (\<lambda>e. e_habit_id e \<noteq> H) (entries s)"
    using u by (simp add: handleDeleteHabit_def)
  have hs: "habits (handleDeleteHabit H None s) = filter (\<lambda>h. h_id h \<noteq> H) (habits s)"
    using u by (simp add: handleDeleteHabit_def)
  have none: "\<forall>d. getEntry (entries (handleDeleteHabit H None s)) H d = None"
    by (simp add: es getEntry_def find_filter_None)
  have ratio: "\<forall>hb dy. h_id hb = H \<longrightarrow>
         getHabitDayRatio (entries (handleDeleteHabit H None s)) hb (d_date dy) = 0 \<and>
         \<not> cellDone (handleDeleteHabit H None s) hb dy"
    using none by (simp add: getHabitDayRatio_def cellDone_def)
  have other: "\<forall>h' d. h' \<noteq> H \<longrightarrow>
         getEntry (entries (handleDeleteHabit H None s)) h' d = getEntry (entries s) h' d"
    by (simp add: es getEntry_def find_filter_other)
  show "(\<forall>d. getEntry (entries (handleDeleteHabit H None s)) H d = None) \<and>
     (\<forall>hb dy. h_id hb = H \<longrightarrow>
         getHabitDayRatio (entries (handleDeleteHabit H None s)) hb (d_date dy) = 0 \<and>
         \<not> cellDone (handleDeleteHabit H None s) hb dy) \<and>
     (\<forall>e\<in>set (entries (handleDeleteHabit H None s)). e_habit_id e \<noteq> H) \<and>
     (\<forall>h' d. h' \<noteq> H \<longrightarrow>
         getEntry (entries (handleDeleteHabit H None s)) h' d = getEntry (entries s) h' d) \<and>
     entries (handleDeleteHabit H None s) = filter (\<lambda>e. e_habit_id e \<noteq> H) (entries s) \<and>
     habits (handleDeleteHabit H None s) = filter (\<lambda>h. h_id h \<noteq> H) (habits s) \<and>
     (\<forall>hb\<in>set (habits s). h_id hb \<noteq> H \<longrightarrow> hb \<in> set (habits (handleDeleteHabit H None s))) \<and>
     (\<forall>e\<in>set (entries s). e_habit_id e \<noteq> H \<longrightarrow> e \<in> set (entries (handleDeleteHabit H None s)))"
    using none ratio other by (simp add: es hs)
qed

text \<open>
  On the sample dashboard whose store holds the eleven rows of the first habit after one row
  of the second: deleting the first habit leaves that one row and the habit list
  \<open>[exHabit2]\<close>; 1 January, done before, reads as not done, and the row of the second
  habit is found as before.
\<close>

theorem C8_delete_habit_witness:
  "user exDashboard2 \<noteq> None \<and>
   cellDone exDashboard2 exHabit (exAxis ! 0) \<and>
   entries (handleDeleteHabit ''h1'' None exDashboard2) = [exRow2] \<and>
   habits (handleDeleteHabit ''h1'' None exDashboard2) = [exHabit2] \<and>
   getEntry (entries (handleDeleteHabit ''h1'' None exDashboard2)) ''h1'' ''2025-01-01'' = None \<and>
   \<not> cellDone (handleDeleteHabit ''h1'' None exDashboard2) exHabit (exAxis ! 0) \<and>
   getEntry (entries (handleDeleteHabit ''h1'' None exDashboard2)) ''h2'' ''2025-01-02'' =
     Some exRow2"
proof -
  have u: "user exDashboard2 \<noteq> None" by (simp add: exDashboard2_def exDashboard_def)
  note C8 = C8_delete_habit [of exDashboard2 "''h1''", THEN mp, OF u]
  have before: "cellDone exDashboard2 exHabit (exAxis ! 0)"
    by (simp add: cellDone_def getHabitDayRatio_def getEntry_def exDashboard2_def
        exDashboard_def exEntries_def exRow_def exRow2_def exHabit_def exAxis_def)
  have "entries (handleDeleteHabit ''h1'' None exDashboard2) =
        filter (\<lambda>e. e_habit_id e \<noteq> ''h1'') (entries exDashboard2)"
    using C8 by (elim conjE)
  then have es: "entries (handleDeleteHabit ''h1'' None exDashboard2) = [exRow2]"
    by (simp add: exDashboard2_def exDashboard_def exEntries_def exRow_def exRow2_def)
  have "habits (handleDeleteHabit ''h1'' None exDashboard2) =
        filter (\<lambda>h. h_id h \<noteq> ''h1'') (habits exDashboard2)"
    using C8 by (elim conjE)
  then have hs: "habits (handleDeleteHabit ''h1'' None exDashboard2) = [exHabit2]"
    by (simp add: exDashboard2_def exDashboard_def exHabit_def exHabit2_def)
  have gone: "getEntry (entries (handleDeleteHabit ''h1'' None exDashboard2)) ''h1''
      ''2025-01-01'' = None"
    using C8 [THEN conjunct1] by (rule spec)
  have hid: "h_id exHabit = ''h1''" by (simp add: exHabit_def)
  have nd: "\<not> cellDone (handleDeleteHabit ''h1'' None exDashboard2) exHabit (exAxis ! 0)"
    using C8 [THEN conjunct2, THEN conjunct1, rule_format, of exHabit "exAxis ! 0"] hid
    by blast
  have ne: "''h2'' \<noteq> ''h1''" by simp
  have "getEntry (entries (handleDeleteHabit ''h1'' None exDashboard2)) ''h2'' ''2025-01-02'' =
      getEntry (entries exDashboard2) ''h2'' ''2025-01-02''"
    using C8 [THEN conjunct2, THEN conjunct2, THEN conjunct2, THEN conjunct1, rule_format,
        of "''h2''" "''2025-01-02''"] ne
    by blast
  then have kept: "getEntry (entries (handleDeleteHabit ''h1'' None exDashboard2)) ''h2''
      ''2025-01-02'' = Some exRow2"
    by (simp add: getEntry_def exDashboard2_def exDashboard_def exRow2_def)
  show ?thesis using u before es hs gone nd kept by (intro conjI)
qed

section \<open>The batch-edit gesture\<close>

lemma updateEntry_call_user:
  "user s = Some uid \<Longrightarrow>
   updateEntry_call h d v s =
     s\<lparr>sent := sent s @ [\<lparr>e_user_id = uid, e_habit_id = h, e_date = d, e_value = v\<rparr>]\<rparr>"
  by (simp add: updateEntry_call_def)

lemma updateEntry_call_entries: "entries (updateEntry_call h d v s) = entries s"
  by (simp add: updateEntry_call_def split: option.splits)

lemma cellDone_currentVal:
  "cellDone s habit dy =
     (case getEntry (entries s) (h_id habit) (d_date dy) of None \<Rightarrow> False | Some c \<Rightarrow> e_value c)"
  by (simp add: cellDone_def getHabitDayRatio_def split: option.splits)

lemma onMouseDown_user:
  assumes "user s = Some uid"
  shows "onMouseDown habit dy s =
     s\<lparr>selectedDate := d_date dy, isDragging := True,
       dragValue := Some (\<not> cellDone s habit dy),
       sent := sent s @ [\<lparr>e_user_id = uid, e_habit_id = h_id habit, e_date = d_date dy,
                          e_value = (\<not> cellDone s habit dy)\<rparr>]\<rparr>"
  using assms
  by (simp add: onMouseDown_def Let_def updateEntry_call_def cellDone_currentVal)

lemma onMouseEnter_dragging:
  assumes "user s = Some uid" and "isDragging s" and "dragValue s = Some t"
  shows "onMouseEnter habit dy s =
     s\<lparr>sent := sent s @ [\<lparr>e_user_id = uid, e_habit_id = h_id habit, e_date = d_date dy,
                          e_value = t\<rparr>]\<rparr>"
  using assms by (simp add: onMouseEnter_def updateEntry_call_def)

lemma resolved_cellDone:
  "cellDone (updateEntry_resolved (h_id habit) (d_date dy)
      (Inr \<lparr>e_user_id = uid, e_habit_id = h_id habit, e_date = d_date dy, e_value = t\<rparr>) s)
      habit dy = t"
proof -
  let ?row = "\<lparr>e_user_id = uid, e_habit_id = h_id habit, e_date = d_date dy, e_value = t\<rparr>"
  have "e_habit_id ?row = h_id habit \<and> e_date ?row = d_date dy" by simp
  then have "getEntry (setEntries_updater (h_id habit) (d_date dy) ?row (entries s))
               (h_id habit) (d_date dy) = Some ?row"
    by (rule updater_getEntry)
  then show ?thesis by (simp add: cellDone_currentVal updateEntry_resolved_def)
qed

text \<open>
  Claim C3, as stated, on the sample dashboard: a pointer-down on the cell of 5 January, not
  done, starts a drag with the target \<open>true\<close>, and the cell is still not done when the
  handler has run; nothing was written to the local store.
\<close>

theorem C3_pointer_down_counterexample:
  "\<not> cellDone exDashboard exHabit (exAxis ! 4) \<and>
   dragValue (onMouseDown exHabit (exAxis ! 4) exDashboard) = Some True \<and>
   \<not> cellDone (onMouseDown exHabit (exAxis ! 4) exDashboard) exHabit (exAxis ! 4) \<and>
   entries (onMouseDown exHabit (exAxis ! 4) exDashboard) = entries exDashboard"
  by (simp add: onMouseDown_def Let_def updateEntry_call_def cellDone_def
      getHabitDayRatio_def getEntry_def exDashboard_def exEntries_def exRow_def
      exHabit_def exAxis_def)

text \<open>
  Claim C3, amended. In a session with a user, a pointer-down on a day cell whose current
  value is \<open>v\<close> moves the selected date to that day, starts a drag whose target is
  \<open>\<not> v\<close>, and at once starts the remote upsert of \<open>\<not> v\<close> for that cell; it changes
  nothing else, the local store included. While the drag is active with target \<open>t\<close>, a
  pointer-enter on any day cell starts the remote upsert of \<open>t\<close> for that cell, whatever
  the cell held, and leaves the target as it is. The cell takes the painted value in the
  local store when its upsert resolves with the row written. A pointer release ends the
  drag, after which a pointer-enter does nothing.
\<close>

theorem C3_batch_edit:
  "user s = Some uid \<longrightarrow>
     onMouseDown habit dy s =
       s\<lparr>selectedDate := d_date dy, isDragging := True,
         dragValue := Some (\<not> cellDone s habit dy),
         sent := sent s @ [\<lparr>e_user_id = uid, e_habit_id = h_id habit, e_date = d_date dy,
                            e_value = (\<not> cellDone s habit dy)\<rparr>]\<rparr> \<and>
     (isDragging s \<and> dragValue s = Some t \<longrightarrow>
        onMouseEnter habit dy s =
          s\<lparr>sent := sent s @ [\<lparr>e_user_id = uid, e_habit_id = h_id habit,
                               e_date = d_date dy, e_value = t\<rparr>]\<rparr>) \<and>
     cellDone (updateEntry_resolved (h_id habit) (d_date dy)
        (Inr \<lparr>e_user_id = uid, e_habit_id = h_id habit, e_date = d_date dy, e_value = t\<rparr>) s)
        habit dy = t \<and>
     \<not> isDragging (handleMouseUp s) \<and> dragValue (handleMouseUp s) = None \<and>
     onMouseEnter habit dy (handleMouseUp s) = handleMouseUp s"
proof
  assume u: "user s = Some uid"
  have up: "\<not> isDragging (handleMouseUp s) \<and> dragValue (handleMouseUp s) = None \<and>
     onMouseEnter habit dy (handleMouseUp s) = handleMouseUp s"
    by (simp add: handleMouseUp_def onMouseEnter_def)
  have enter: "isDragging s \<and> dragValue s = Some t \<longrightarrow>
        onMouseEnter habit dy s =
          s\<lparr>sent := sent s @ [\<lparr>e_user_id = uid, e_habit_id = h_id habit,
                               e_date = d_date dy, e_value = t\<rparr>]\<rparr>"
    using onMouseEnter_dragging [OF u, of t habit dy] by blast
  show "onMouseDown habit dy s =
       s\<lparr>selectedDate := d_date dy, isDragging := True,
         dragValue := Some (\<not> cellDone s habit dy),
         sent := sent s @ [\<lparr>e_user_id = uid, e_habit_id = h_id habit, e_date = d_date dy,
                            e_value = (\<not> cellDone s habit dy)\<rparr>]\<rparr> \<and>
     (isDragging s \<and> dragValue s = Some t \<longrightarrow>
        onMouseEnter habit dy s =
          s\<lparr>sent := sent s @ [\<lparr>e_user_id = uid, e_habit_id = h_id habit,
                               e_date = d_date dy, e_value = t\<rparr>]\<rparr>) \<and>
     cellDone (updateEntry_resolved (h_id habit) (d_date dy)
        (Inr \<lparr>e_user_id = uid, e_habit_id = h_id habit, e_date = d_date dy, e_value = t\<rparr>) s)
        habit dy = t \<and>
     \<not> isDragging (handleMouseUp s) \<and> dragValue (handleMouseUp s) = None \<and>
     onMouseEnter habit dy (handleMouseUp s) = handleMouseUp s"
    using onMouseDown_user [OF u, of habit dy] enter resolved_cellDone [of habit dy uid t s] up
    by (intro conjI) simp_all
qed

text \<open>
  On the sample dashboard: the pointer-down on 5 January (not done) selects that day, starts
  a drag with target \<open>true\<close> and sends one upsert; a pointer-enter on 6 January, already
  done, then sends the upsert of \<open>true\<close> for it as well; once the first upsert has
  resolved, 5 January is done.
\<close>

theorem C3_batch_edit_witness:
  "user exDashboard = Some ''u1'' \<and>
   \<not> cellDone exDashboard exHabit (exAxis ! 4) \<and>
   selectedDate (onMouseDown exHabit (exAxis ! 4) exDashboard) = ''2025-01-05'' \<and>
   isDragging (onMouseDown exHabit (exAxis ! 4) exDashboard) \<and>
   dragValue (onMouseDown exHabit (exAxis ! 4) exDashboard) = Some True \<and>
   sent (onMouseDown exHabit (exAxis ! 4) exDashboard) = [exRow ''2025-01-05'' True] \<and>
   user (onMouseDown exHabit (exAxis ! 4) exDashboard) = Some ''u1'' \<and>
   cellDone (onMouseDown exHabit (exAxis ! 4) exDashboard) exHabit (exAxis ! 5) \<and>
   sent (onMouseEnter exHabit (exAxis ! 5) (onMouseDown exHabit (exAxis ! 4) exDashboard)) =
     [exRow ''2025-01-05'' True, exRow ''2025-01-06'' True] \<and>
   dragValue (onMouseEnter exHabit (exAxis ! 5) (onMouseDown exHabit (exAxis ! 4) exDashboard)) =
     Some True \<and>
   cellDone (updateEntry_resolved ''h1'' ''2025-01-05'' (Inr (exRow ''2025-01-05'' True))
              (onMouseDown exHabit (exAxis ! 4) exDashboard)) exHabit (exAxis ! 4)"
proof -
  define s1 where "s1 = onMouseDown exHabit (exAxis ! 4) exDashboard"
  have u: "user exDashboard = Some ''u1''" by (simp add: exDashboard_def)
  have d4: "d_date (exAxis ! 4) = ''2025-01-05''" and d5: "d_date (exAxis ! 5) = ''2025-01-06''"
    by (simp_all add: exAxis_def)
  have hid: "h_id exHabit = ''h1''" by (simp add: exHabit_def)
  have v: "\<not> cellDone exDashboard exHabit (exAxis ! 4)"
    by (simp add: cellDone_def getHabitDayRatio_def getEntry_def exDashboard_def
        exEntries_def exRow_def exHabit_def exAxis_def)
  have down: "s1 = exDashboard\<lparr>selectedDate := ''2025-01-05'', isDragging := True,
        dragValue := Some True, sent := sent exDashboard @ [exRow ''2025-01-05'' True]\<rparr>"
    using C3_batch_edit [of exDashboard "''u1''" exHabit "exAxis ! 4"] u v
    by (simp add: s1_def d4 hid exRow_def)
  have sel: "selectedDate s1 = ''2025-01-05''" and drag: "isDragging s1"
    and tgt: "dragValue s1 = Some True" and u1: "user s1 = Some ''u1''"
    and snt: "sent s1 = [exRow ''2025-01-05'' True]"
    by (simp_all add: down) (simp_all add: exDashboard_def)
  have prior: "cellDone s1 exHabit (exAxis ! 5)"
    by (simp add: down cellDone_def getHabitDayRatio_def getEntry_def exDashboard_def
        exEntries_def exRow_def exHabit_def exAxis_def)
  have enter: "onMouseEnter exHabit (exAxis ! 5) s1 =
      s1\<lparr>sent := sent s1 @ [exRow ''2025-01-06'' True]\<rparr>"
    using C3_batch_edit [of s1 "''u1''" exHabit "exAxis ! 5" True] u1 drag tgt
    by (simp add: d5 hid exRow_def)
  have snt2: "sent (onMouseEnter exHabit (exAxis ! 5) s1) =
      [exRow ''2025-01-05'' True, exRow ''2025-01-06'' True]"
    by (simp add: enter snt)
  have tgt2: "dragValue (onMouseEnter exHabit (exAxis ! 5) s1) = Some True"
    by (simp add: enter tgt)
  have "cellDone (updateEntry_resolved (h_id exHabit) (d_date (exAxis ! 4))
          (Inr \<lparr>e_user_id = ''u1'', e_habit_id = h_id exHabit, e_date = d_date (exAxis ! 4),
                e_value = True\<rparr>) s1) exHabit (exAxis ! 4) = True"
    using C3_batch_edit [of s1 "''u1''" exHabit "exAxis ! 4" True] u1 by blast
  then have painted: "cellDone (updateEntry_resolved ''h1'' ''2025-01-05''
      (Inr (exRow ''2025-01-05'' True)) s1) exHabit (exAxis ! 4)"
    by (simp add: d4 hid exRow_def)
  show ?thesis
    using u v sel drag tgt snt u1 prior snt2 tgt2 painted unfolding s1_def by (intro conjI)
qed

section \<open>Local store and remote write\<close>

text \<open>
  Claim C4, as stated, on the sample dashboard: after \<open>updateEntry\<close> has been called to
  paint 5 January \<open>true\<close>, the cell is still not done while the remote write is pending,
  and it is still not done after the write has failed: the store never held the painted
  value.
\<close>

theorem C4_optimistic_counterexample:
  "\<not> cellDone (updateEntry_call ''h1'' ''2025-01-05'' True exDashboard) exHabit (exAxis ! 4) \<and>
   \<not> cellDone (updateEntry_resolved ''h1'' ''2025-01-05'' (Inl (RemoteError ''timeout''))
                 (updateEntry_call ''h1'' ''2025-01-05'' True exDashboard))
        exHabit (exAxis ! 4)"
  by (simp add: updateEntry_call_def updateEntry_resolved_def cellDone_def
      getHabitDayRatio_def getEntry_def exDashboard_def exEntries_def exRow_def
      exHabit_def exAxis_def)

text \<open>
  Claim C4, amended. A call of \<open>updateEntry\<close> starts the remote write and leaves the local
  store as it is. The store is written when the remote write has resolved without error,
  with the row the server returned (the lookup of the key then yields that row). When the
  remote write fails, the error is logged and the local store is left unchanged: it holds
  what it held before the call, there being no optimistic value to roll back.
\<close>

theorem C4_store_written_on_success:
  "entries (updateEntry_call h d v s) = entries s \<and>
   (user s = Some uid \<longrightarrow>
      sent (updateEntry_call h d v s) =
        sent s @ [\<lparr>e_user_id = uid, e_habit_id = h, e_date = d, e_value = v\<rparr>]) \<and>
   entries (updateEntry_resolved h d (Inl err) s) = entries s \<and>
   console (updateEntry_resolved h d (Inl err) s) = console s @ [''Error updating entry:''] \<and>
   entries (updateEntry_resolved h d (Inr data) s) = setEntries_updater h d data (entries s) \<and>
   (e_habit_id data = h \<and> e_date data = d \<longrightarrow>
      getEntry (entries (updateEntry_resolved h d (Inr data) s)) h d = Some data)"
proof (intro conjI impI)
  show "entries (updateEntry_call h d v s) = entries s"
    by (rule updateEntry_call_entries)
  show "sent (updateEntry_call h d v s) =
        sent s @ [\<lparr>e_user_id = uid, e_habit_id = h, e_date = d, e_value = v\<rparr>]"
    if "user s = Some uid"
    using that by (simp add: updateEntry_call_def)
  show "entries (updateEntry_resolved h d (Inl err) s) = entries s"
    by (simp add: updateEntry_resolved_def)
  show "console (updateEntry_resolved h d (Inl err) s) = console s @ [''Error updating entry:'']"
    by (simp add: updateEntry_resolved_def)
  show res: "entries (updateEntry_resolved h d (Inr data) s) =
      setEntries_updater h d data (entries s)"
    by (simp add: updateEntry_resolved_def)
  show "getEntry (entries (updateEntry_resolved h d (Inr data) s)) h d = Some data"
    if "e_habit_id data = h \<and> e_date data = d"
    unfolding res using that by (rule updater_getEntry)
qed

text \<open>
  On the sample dashboard, painting 5 January \<open>true\<close>: the call sends the row and leaves
  the store alone; after a failure the store is the old one and one message is logged;
  after a success the row is in the store.
\<close>

theorem C4_store_written_on_success_witness:
  "user exDashboard = Some ''u1'' \<and>
   sent (updateEntry_call ''h1'' ''2025-01-05'' True exDashboard) = [exRow ''2025-01-05'' True] \<and>
   entries (updateEntry_call ''h1'' ''2025-01-05'' True exDashboard) = exEntries \<and>
   entries (updateEntry_resolved ''h1'' ''2025-01-05'' (Inl (RemoteError ''timeout''))
             (updateEntry_call ''h1'' ''2025-01-05'' True exDashboard)) = exEntries \<and>
   console (updateEntry_resolved ''h1'' ''2025-01-05'' (Inl (RemoteError ''timeout''))
             (updateEntry_call ''h1'' ''2025-01-05'' True exDashboard)) =
     [''Error updating entry:''] \<and>
   e_habit_id (exRow ''2025-01-05'' True) = ''h1'' \<and>
   e_date (exRow ''2025-01-05'' True) = ''2025-01-05'' \<and>
   getEntry (entries (updateEntry_resolved ''h1'' ''2025-01-05''
               (Inr (exRow ''2025-01-05'' True))
               (updateEntry_call ''h1'' ''2025-01-05'' True exDashboard)))
       ''h1'' ''2025-01-05'' = Some (exRow ''2025-01-05'' True)"
proof -
  define s1 where "s1 = updateEntry_call ''h1'' ''2025-01-05'' True exDashboard"
  note C4 = C4_store_written_on_success [of "''h1''" "''2025-01-05''" True exDashboard "''u1''"]
  note C4' = C4_store_written_on_success [of "''h1''" "''2025-01-05''" True s1 "''u1''"
      "RemoteError ''timeout''" "exRow ''2025-01-05'' True"]
  have u: "user exDashboard = Some ''u1''" by (simp add: exDashboard_def)
  have k: "e_habit_id (exRow ''2025-01-05'' True) = ''h1'' \<and>
           e_date (exRow ''2025-01-05'' True) = ''2025-01-05''"
    by (simp add: exRow_def)
  have "sent s1 = sent exDashboard @
      [\<lparr>e_user_id = ''u1'', e_habit_id = ''h1'', e_date = ''2025-01-05'', e_value = True\<rparr>]"
    unfolding s1_def using C4 u by blast
  then have snt: "sent s1 = [exRow ''2025-01-05'' True]"
    by (simp add: exDashboard_def exRow_def)
  have "entries s1 = entries exDashboard" unfolding s1_def using C4 by blast
  then have es: "entries s1 = exEntries" by (simp add: exDashboard_def)
  have "entries (updateEntry_resolved ''h1'' ''2025-01-05'' (Inl (RemoteError ''timeout'')) s1) =
      entries s1"
    using C4' by blast
  then have failed: "entries (updateEntry_resolved ''h1'' ''2025-01-05''
      (Inl (RemoteError ''timeout'')) s1) = exEntries"
    by (simp add: es)
  have c1: "console s1 = []"
    by (simp add: s1_def updateEntry_call_def exDashboard_def)
  have "console (updateEntry_resolved ''h1'' ''2025-01-05'' (Inl (RemoteError ''timeout'')) s1) =
      console s1 @ [''Error updating entry:'']"
    using C4' by blast
  then have logged: "console (updateEntry_resolved ''h1'' ''2025-01-05''
      (Inl (RemoteError ''timeout'')) s1) = [''Error updating entry:'']"
    by (simp add: c1)
  have ok: "getEntry (entries (updateEntry_resolved ''h1'' ''2025-01-05''
      (Inr (exRow ''2025-01-05'' True)) s1)) ''h1'' ''2025-01-05'' =
      Some (exRow ''2025-01-05'' True)"
    using C4' k by blast
  show ?thesis using u snt es failed logged k ok unfolding s1_def by (intro conjI) simp_all
qed

section \<open>The axis east of UTC\<close>

text \<open>
  Claim C5 at the clock value 2025-01-03T04:30:00Z on a host five and a half hours ahead of
  UTC, where it is 10:00 on 3 January 2025: the local fields of the three days generated
  are 1, 2 and 3 January, as the comment of \<open>getDaysFromStartOfYear\<close> announces, but their
  \<open>date\<close> strings, taken from the UTC rendering of local midnight, run from 31 December
  2024 to 2 January 2025. The first is not 1 January of the year and the last is not the
  reference date. On a host five hours behind UTC the same clock value (23:30 on 2 January)
  yields 1 and 2 January.
\<close>

theorem C5_axis_east_of_UTC:
  "getFullYear 330 1735878600000 = 2025 \<and>
   getMonth 330 1735878600000 = 0 \<and>
   getDate 330 1735878600000 = 3 \<and>
   map d_date (getDaysFromStartOfYear 1735878600000 330) =
     [''2024-12-31'', ''2025-01-01'', ''2025-01-02''] \<and>
   map d_dayOfMonth (getDaysFromStartOfYear 1735878600000 330) = [1, 2, 3] \<and>
   map d_monthIndex (getDaysFromStartOfYear 1735878600000 330) = [0, 0, 0] \<and>
   getDate (- 300) 1735878600000 = 2 \<and>
   map d_date (getDaysFromStartOfYear 1735878600000 (- 300)) = [''2025-01-01'', ''2025-01-02'']"
  by code_simp

end
